theory Spec2Isabelle
  imports Main "HOL-Library.Word" "HOL-Library.AList" "HOL-Library.Multiset"
begin

section \<open>Data model of the owner (cdc/changefeed.go, cdc/owner\_operator.go)\<close>

text \<open>
  Timestamps are Go \<open>uint64\<close> values, compared unsigned; \<open>math.MaxUint64\<close> is the
  all-ones word. Table and schema ids are Go \<open>int64\<close> values that the code only
  compares for equality. A Go map is an association list with distinct keys; the order
  of the list is the (unspecified) order in which \<open>range\<close> visits the map.
\<close>

type_synonym Ts = "64 word"
type_synonym TableID = "64 word"
type_synonym SchemaID = "64 word"
type_synonym CaptureID = string

definition MaxUint64 :: Ts where
  "MaxUint64 = - 1"

text \<open>
  Modelled from the spec: the type \<open>model.TableOperation\<close> and the methods
  \<open>SomeOperationsUnapplied\<close>, \<open>AppliedTs\<close>, \<open>RemoveTable\<close> and \<open>Clone\<close> of
  \<open>model.TaskStatus\<close> are not among the sources. The spec gives an operation a kind
  (add or delete), a boundary timestamp and an \<open>applied\<close> state; balancing requires that
  no operation is pending, and the timestamps are clamped to the boundary of every pending
  operation. The literal \<open>&model.TableOperation{Delete: .., BoundaryTs: ..}\<close> of the
  source leaves the state at its zero value, \<open>Pending\<close>.
\<close>

datatype applied_state = Pending | Processed | Finished

record TableOperation =
  Delete :: bool
  BoundaryTs :: Ts
  applied :: applied_state

record TaskStatus =
  Tables :: "(TableID \<times> Ts) list"
  Operation :: "(TableID \<times> TableOperation) list"

record TaskPosition =
  CheckPointTs :: Ts
  ResolvedTs_pos :: Ts

definition SomeOperationsUnapplied :: "TaskStatus \<Rightarrow> bool" where
  "SomeOperationsUnapplied ts = list_ex (\<lambda>(tid, o'). applied o' = Pending) (Operation ts)"

definition AppliedTs :: "TaskStatus \<Rightarrow> Ts" where
  "AppliedTs ts =
     fold (\<lambda>(tid, o') appliedTs.
             if applied o' = Pending \<and> appliedTs > BoundaryTs o' then BoundaryTs o' else appliedTs)
          (Operation ts) MaxUint64"

definition RemoveTable :: "TaskStatus \<Rightarrow> TableID \<Rightarrow> TaskStatus" where
  "RemoveTable ts tid = ts\<lparr>Tables := AList.delete tid (Tables ts)\<rparr>"

definition new_TaskStatus :: TaskStatus where
  "new_TaskStatus = \<lparr>Tables = [], Operation = []\<rparr>"

subsection \<open>Queueing table operations\<close>

text \<open>
  \<open>appendTaskOperation\<close> (changefeed.go, lines 477-485): an id that already has an
  operation keeps it when the new one is of the same kind and loses it when the new one is
  of the other kind; an id without an operation gets the new one.
\<close>

definition appendTaskOperation ::
  "(TableID \<times> TableOperation) list \<Rightarrow> TableID \<Rightarrow> TableOperation \<Rightarrow> (TableID \<times> TableOperation) list"
where
  "appendTaskOperation targetOperations tableID operation =
     (case map_of targetOperations tableID of
        Some originalOperation \<Rightarrow>
          if Delete originalOperation \<noteq> Delete operation
          then AList.delete tableID targetOperations
          else targetOperations
      | None \<Rightarrow> AList.update tableID operation targetOperations)"

definition appendTaskOperations ::
  "(TableID \<times> TableOperation) list \<Rightarrow> (TableID \<times> TableOperation) list \<Rightarrow> (TableID \<times> TableOperation) list"
where
  "appendTaskOperations targetOperations toAppendOperations =
     fold (\<lambda>(tableID, operation) acc. appendTaskOperation acc tableID operation)
          toAppendOperations targetOperations"

subsection \<open>DDL jobs and the owner's DDL handler (owner\_operator.go, lines 31-107)\<close>

text \<open>
  \<open>timodel.Job\<close> belongs to the SQL parser library. The record holds the fields the
  owner reads: the job id, its type, the schema and table ids, and the binlog info with the
  finished timestamp and the table info (absent for a schema job). The jobs that reach the
  owner are finished jobs, which carry their binlog info, so the field is not optional.
  \<open>PartitionDefinitions\<close> is what \<open>GetPartitionInfo\<close> gives: nothing for an
  unpartitioned table, the ids of the partitions otherwise.
\<close>

datatype ActionType =
    ActionCreateSchema | ActionDropSchema | ActionCreateTable | ActionRecoverTable
  | ActionDropTable | ActionRenameTable | ActionTruncateTable | ActionOther nat

record timodel_TableInfo =
  TableInfo_ID :: TableID
  PartitionDefinitions :: "TableID list option"

record timodel_BinlogInfo =
  FinishedTS :: Ts
  TableInfo :: "timodel_TableInfo option"

record Job =
  Job_ID :: "64 word"
  Type :: ActionType
  Job_SchemaID :: SchemaID
  Job_TableID :: TableID
  BinlogInfo :: timodel_BinlogInfo

datatype OpType = OpTypePut | OpTypeDelete | OpTypeResolved

record RawKVEntry =
  OpType :: OpType
  Key :: "8 word list"
  Value :: "8 word list"
  RawKVEntry_Ts :: Ts

text \<open>
  Errors are values. \<open>ErrExternal\<close> stands for an error returned by a collaborator
  outside the sources (the schema snapshot, the sink, the metadata store, the DDL
  decoder); \<open>LogFatal\<close> is \<open>log.Fatal\<close>, which ends the process, and \<open>NilPanic\<close> a
  nil dereference.
\<close>

datatype error =
    ErrExecDDLFailed
  | ErrNotFound TableID
  | ErrWaitingProcessor
  | ErrExternal nat
  | LogFatal
  | NilPanic

record ddlHandler =
  resolvedTS :: Ts
  ddlJobs :: "Job list"

text \<open>
  \<open>entry.UnmarshalDDL\<close> and \<open>entry.SkipJob\<close> are not among the sources; they are
  parameters. \<open>UnmarshalDDL\<close> gives an error, no job (nil), or a job.
\<close>

definition receiveDDL ::
  "(RawKVEntry \<Rightarrow> error + Job option) \<Rightarrow> (Job \<Rightarrow> bool) \<Rightarrow> ddlHandler \<Rightarrow> RawKVEntry
     \<Rightarrow> error option \<times> ddlHandler"
where
  "receiveDDL UnmarshalDDL SkipJob h rawDDL =
     (if OpType rawDDL = OpTypeResolved
      then (None, h\<lparr>resolvedTS := RawKVEntry_Ts rawDDL\<rparr>)
      else case UnmarshalDDL rawDDL of
             Inl err \<Rightarrow> (Some err, h)
           | Inr None \<Rightarrow> (None, h)
           | Inr (Some job) \<Rightarrow>
               if SkipJob job then (None, h)
               else (None, h\<lparr>ddlJobs := ddlJobs h @ [job]\<rparr>))"

text \<open>
  The goroutine started by \<open>newDDLHandler\<close> (lines 60-72) feeds every entry of the
  sorted DDL stream to \<open>receiveDDL\<close> and stops at the first error.
\<close>

fun receiveLoop ::
  "(RawKVEntry \<Rightarrow> error + Job option) \<Rightarrow> (Job \<Rightarrow> bool) \<Rightarrow> ddlHandler \<Rightarrow> RawKVEntry list
     \<Rightarrow> error option \<times> ddlHandler"
where
  "receiveLoop UnmarshalDDL SkipJob h [] = (None, h)"
| "receiveLoop UnmarshalDDL SkipJob h (e # es) =
     (case receiveDDL UnmarshalDDL SkipJob h e of
        (Some err, h') \<Rightarrow> (Some err, h')
      | (None, h') \<Rightarrow> receiveLoop UnmarshalDDL SkipJob h' es)"

text \<open>\<open>PullDDL\<close> (lines 101-107): the resolved timestamp, the buffered jobs, a nil error;
  the buffer is emptied.\<close>

definition PullDDL :: "ddlHandler \<Rightarrow> (Ts \<times> Job list \<times> error option) \<times> ddlHandler" where
  "PullDDL h = ((resolvedTS h, ddlJobs h, None), h\<lparr>ddlJobs := []\<rparr>)"

text \<open>What the handler's goroutine accepts from a stream of entries, in the words of the
  claim: the jobs received, and the last resolved timestamp seen.\<close>

fun acceptedJobs ::
  "(RawKVEntry \<Rightarrow> error + Job option) \<Rightarrow> (Job \<Rightarrow> bool) \<Rightarrow> RawKVEntry list \<Rightarrow> Job list"
where
  "acceptedJobs UnmarshalDDL SkipJob [] = []"
| "acceptedJobs UnmarshalDDL SkipJob (e # es) =
     (if OpType e = OpTypeResolved then acceptedJobs UnmarshalDDL SkipJob es
      else case UnmarshalDDL e of
             Inl err \<Rightarrow> []
           | Inr None \<Rightarrow> acceptedJobs UnmarshalDDL SkipJob es
           | Inr (Some job) \<Rightarrow>
               if SkipJob job then acceptedJobs UnmarshalDDL SkipJob es
               else job # acceptedJobs UnmarshalDDL SkipJob es)"

fun lastResolved ::
  "(RawKVEntry \<Rightarrow> error + Job option) \<Rightarrow> Ts \<Rightarrow> RawKVEntry list \<Rightarrow> Ts"
where
  "lastResolved UnmarshalDDL ts [] = ts"
| "lastResolved UnmarshalDDL ts (e # es) =
     (if OpType e = OpTypeResolved then lastResolved UnmarshalDDL (RawKVEntry_Ts e) es
      else case UnmarshalDDL e of
             Inl err \<Rightarrow> ts
           | Inr _ \<Rightarrow> lastResolved UnmarshalDDL ts es)"

subsection \<open>The changefeed held by the owner (changefeed.go, lines 68-100)\<close>

datatype ChangeFeedDDLState =
    ChangeFeedUnknown | ChangeFeedSyncDML | ChangeFeedWaitToExecDDL | ChangeFeedExecDDL
  | ChangeFeedDDLExecuteFailed

record ChangeFeedStatus =
  ResolvedTs :: Ts
  CheckpointTs :: Ts

record TableName =
  Schema :: string
  Table :: string

text \<open>
  The schema snapshot and the scheduler are collaborators outside the sources: their
  states are the type parameters \<open>'sch\<close> and \<open>'sched\<close>. \<open>cyclicSyncDDL\<close> is
  \<open>info.Config.Cyclic.SyncDDL\<close>, the one field of the changefeed's info that the code
  reads. \<open>lastRebanlanceTime\<close> is a clock reading in nanoseconds. The sets of table ids
  under \<open>schemas\<close> are lists without repetition.
\<close>

record ('sch, 'sched) changeFeed =
  cyclicSyncDDL :: bool
  status :: ChangeFeedStatus
  schema :: 'sch
  ddlState :: ChangeFeedDDLState
  targetTs :: Ts
  taskStatus :: "(CaptureID \<times> TaskStatus) list"
  taskPositions :: "(CaptureID \<times> TaskPosition) list"
  scheduler :: 'sched
  cyclicEnabled :: bool
  ddlHandler :: ddlHandler
  ddlResolvedTs :: Ts
  ddlJobHistory :: "Job list"
  ddlExecutedTs :: Ts
  schemas :: "(SchemaID \<times> TableID list) list"
  tables :: "(TableID \<times> TableName) list"
  partitions :: "(TableID \<times> TableID list) list"
  orphanTables :: "(TableID \<times> Ts) list"
  toCleanTables :: "(TableID \<times> Ts) list"
  todoAddOperations :: "(CaptureID \<times> (TableID \<times> TableOperation) list) list"
  lastRebanlanceTime :: int

text \<open>
  The calls the owner makes on the sink, in order. The DDL event is built from the job by
  \<open>DDLEvent.FromJob\<close>, which is not among the sources; the call is recorded with the
  job.
\<close>

datatype sink_call = EmitDDLEvent Job | EmitCheckpointTs Ts

text \<open>
  The collaborators outside the sources, as functions: the schema snapshot
  (\<open>entry.SingleSchemaSnapshot\<close>), the filter, the sink, the cyclic-replication helpers,
  the scheduler, the workload read of the metadata store and the DDL decoder. A scheduler call gives its
  result and the scheduler's next state. \<open>etcd_putFails\<close> says for which capture the
  write to the metadata store fails (a lost connection, a revision conflict).
\<close>

type_synonym TaskWorkload = "(TableID \<times> nat) list"
type_synonym Operations = "(CaptureID \<times> (TableID \<times> TableOperation) list) list"

record ('sch, 'sched) deps =
  schema_HandleDDL :: "'sch \<Rightarrow> Job \<Rightarrow> error + 'sch"
  schema_FillSchemaName :: "'sch \<Rightarrow> Job \<Rightarrow> error option"
  schema_IsIneligibleTableID :: "'sch \<Rightarrow> TableID \<Rightarrow> bool"
  schema_GetTableNameByID :: "'sch \<Rightarrow> TableID \<Rightarrow> TableName option"
  schema_GetTableIDByName :: "'sch \<Rightarrow> string \<Rightarrow> string \<Rightarrow> TableID option"
  filter_ShouldIgnoreTable :: "string \<Rightarrow> string \<Rightarrow> bool"
  filter_ShouldDiscardDDL :: "ActionType \<Rightarrow> bool"
  sink_EmitDDLEvent :: "Job \<Rightarrow> error option"
  sink_EmitCheckpointTs :: "Ts \<Rightarrow> error option"
  cyclic_IsMarkTable :: "string \<Rightarrow> string \<Rightarrow> bool"
  cyclic_MarkTableName :: "string \<Rightarrow> string \<Rightarrow> string \<times> string"
  scheduler_AlignCapture :: "'sched \<Rightarrow> CaptureID list \<Rightarrow> 'sched"
  scheduler_DistributeTables :: "'sched \<Rightarrow> (TableID \<times> Ts) list \<Rightarrow> Operations \<times> 'sched"
  scheduler_ResetWorkloads :: "'sched \<Rightarrow> CaptureID \<Rightarrow> TaskWorkload \<Rightarrow> 'sched"
  scheduler_CalRebalanceOperates :: "'sched \<Rightarrow> Ts \<Rightarrow> (Operations \<times> Operations) \<times> 'sched"
  etcd_GetTaskWorkload :: "CaptureID \<Rightarrow> error + TaskWorkload"
  etcd_putFails :: "CaptureID \<Rightarrow> error option"
  entry_UnmarshalDDL :: "RawKVEntry \<Rightarrow> error + Job option"
  entry_SkipJob :: "Job \<Rightarrow> bool"

subsection \<open>Computing the global timestamps (changefeed.go, lines 631-760)\<close>

text \<open>\<open>pullDDLJob\<close> (lines 746-760).\<close>

definition pullDDLJob ::
  "('sch, 'sched) deps \<Rightarrow> ('sch, 'sched) changeFeed \<Rightarrow> error option \<times> ('sch, 'sched) changeFeed"
where
  "pullDDLJob deps c =
     (case PullDDL (ddlHandler c) of
        ((ddlResolvedTs', ddlJobs', Some err), h') \<Rightarrow> (Some err, c\<lparr>ddlHandler := h'\<rparr>)
      | ((ddlResolvedTs', ddlJobs', None), h') \<Rightarrow>
          (None, c\<lparr>ddlHandler := h',
                   ddlResolvedTs := ddlResolvedTs',
                   ddlJobHistory :=
                     ddlJobHistory c @ filter (\<lambda>ddl. \<not> filter_ShouldDiscardDDL deps (Type ddl)) ddlJobs'\<rparr>))"

text \<open>The four loops of lines 646-686, each over the pair
  \<open>(minResolvedTs, minCheckpointTs)\<close>.\<close>

definition minOverPositions :: "(CaptureID \<times> TaskPosition) list \<Rightarrow> Ts \<times> Ts \<Rightarrow> Ts \<times> Ts" where
  "minOverPositions positions =
     fold (\<lambda>(captureID, position) (minResolvedTs, minCheckpointTs).
             (if minResolvedTs > ResolvedTs_pos position then ResolvedTs_pos position else minResolvedTs,
              if minCheckpointTs > CheckPointTs position then CheckPointTs position else minCheckpointTs))
          positions"

definition minOverTaskStatus :: "(CaptureID \<times> TaskStatus) list \<Rightarrow> Ts \<times> Ts \<Rightarrow> Ts \<times> Ts" where
  "minOverTaskStatus statuses =
     fold (\<lambda>(captureID, status) (minResolvedTs, minCheckpointTs).
             let appliedTs = AppliedTs status in
             (if minResolvedTs > appliedTs then appliedTs else minResolvedTs,
              if minCheckpointTs > appliedTs then appliedTs else minCheckpointTs))
          statuses"

definition minOverTables :: "(TableID \<times> Ts) list \<Rightarrow> Ts \<times> Ts \<Rightarrow> Ts \<times> Ts" where
  "minOverTables tbls =
     fold (\<lambda>(tableID, ts) (minResolvedTs, minCheckpointTs).
             (if minResolvedTs > ts then ts else minResolvedTs,
              if minCheckpointTs > ts then ts else minCheckpointTs))
          tbls"

text \<open>
  \<open>calcResolvedTs\<close> (lines 631-744), in the order of its text: the guards and the
  minima (lines 632-686), the clamp to the DDL puller's resolved timestamp (lines 688-700),
  the head of the DDL job history (lines 702-710) and the writes to the stored status
  (lines 712-743). The result is the returned error, the changefeed after the call and the
  calls made on the sink. The stored timestamps are written before the sink is called, so
  they stay written when the sink fails.
\<close>

definition pullAndClamp ::
  "('sch, 'sched) deps \<Rightarrow> ('sch, 'sched) changeFeed \<Rightarrow> Ts
     \<Rightarrow> error option \<times> ('sch, 'sched) changeFeed \<times> Ts"
where
  "pullAndClamp deps c minResolvedTs =
     (if minResolvedTs > ddlResolvedTs c
      then case pullDDLJob deps c of
             (Some err, c1) \<Rightarrow> (Some err, c1, minResolvedTs)
           | (None, c1) \<Rightarrow>
               (None, c1, if minResolvedTs > ddlResolvedTs c1 then ddlResolvedTs c1
                          else minResolvedTs)
      else (None, c, minResolvedTs))"

definition waitForDDL ::
  "('sch, 'sched) changeFeed \<Rightarrow> Ts \<Rightarrow> ('sch, 'sched) changeFeed \<times> Ts"
where
  "waitForDDL c minResolvedTs =
     (let c1 = c\<lparr>ddlJobHistory :=
                   dropWhile (\<lambda>job. FinishedTS (BinlogInfo job) \<le> ddlExecutedTs c)
                     (ddlJobHistory c)\<rparr>
      in case ddlJobHistory c1 of
           [] \<Rightarrow> (c1, minResolvedTs)
         | job # rest \<Rightarrow>
             if minResolvedTs > FinishedTS (BinlogInfo job)
             then (c1\<lparr>ddlState := ChangeFeedWaitToExecDDL\<rparr>, FinishedTS (BinlogInfo job))
             else (c1, minResolvedTs))"

definition commitTs ::
  "('sch, 'sched) deps \<Rightarrow> ('sch, 'sched) changeFeed \<Rightarrow> Ts \<Rightarrow> Ts
     \<Rightarrow> error option \<times> ('sch, 'sched) changeFeed \<times> sink_call list"
where
  "commitTs deps c minResolvedTs minCheckpointTs0 =
     (let minCheckpointTs = (if minCheckpointTs0 > minResolvedTs then minResolvedTs
                             else minCheckpointTs0);
          c1 = (if minResolvedTs > ResolvedTs (status c)
                then c\<lparr>status := (status c)\<lparr>ResolvedTs := minResolvedTs\<rparr>\<rparr>
                else c)
      in if minCheckpointTs > CheckpointTs (status c1)
         then
           let c2 = c1\<lparr>status := (status c1)\<lparr>CheckpointTs := minCheckpointTs\<rparr>\<rparr>
           in if ddlState c2 \<noteq> ChangeFeedWaitToExecDDL
              then (sink_EmitCheckpointTs deps minCheckpointTs, c2,
                    [EmitCheckpointTs minCheckpointTs])
              else (None, c2, [])
         else (None, c1, []))"

definition calcResolvedTs ::
  "('sch, 'sched) deps \<Rightarrow> ('sch, 'sched) changeFeed
     \<Rightarrow> error option \<times> ('sch, 'sched) changeFeed \<times> sink_call list"
where
  "calcResolvedTs deps c =
     (if ddlState c \<noteq> ChangeFeedSyncDML \<and> ddlState c \<noteq> ChangeFeedWaitToExecDDL then (None, c, [])
      else if length (taskPositions c) < length (taskStatus c) then (None, c, [])
      else
        let start = (if length (taskPositions c) = 0
                     then (targetTs c, ResolvedTs (status c))
                     else minOverPositions (taskPositions c) (targetTs c, targetTs c));
            (minResolvedTs, minCheckpointTs) =
               minOverTables (toCleanTables c)
                 (minOverTables (orphanTables c)
                    (minOverTaskStatus (taskStatus c) start))
        in case pullAndClamp deps c minResolvedTs of
             (Some err, c1, minResolvedTs1) \<Rightarrow> (Some err, c1, [])
           | (None, c1, minResolvedTs1) \<Rightarrow>
               (case waitForDDL c1 minResolvedTs1 of
                  (c2, minResolvedTs2) \<Rightarrow> commitTs deps c2 minResolvedTs2 minCheckpointTs))"

subsection \<open>Writing task statuses to the metadata store (changefeed.go, lines 374-391)\<close>

text \<open>
  The part of the metadata store that holds the task statuses of the changefeed, one per
  capture.

  Modelled from the spec: \<open>AtomicPutTaskStatus\<close> of the metadata-store client is not
  among the sources. The spec describes a compare-and-set against the current revision of
  one capture's task status: the stored status (an empty one when the key is absent) is
  handed to the update function; when that fails, or the write fails, nothing is stored
  and the error is returned; otherwise the updated status is stored and returned.
\<close>

type_synonym etcd_store = "(CaptureID \<times> TaskStatus) list"

definition AtomicPutTaskStatus ::
  "('sch, 'sched) deps \<Rightarrow> etcd_store \<Rightarrow> CaptureID \<Rightarrow> (TaskStatus \<Rightarrow> error + TaskStatus)
     \<Rightarrow> (error + TaskStatus) \<times> etcd_store"
where
  "AtomicPutTaskStatus deps store captureID update =
     (let stored = (case map_of store captureID of None \<Rightarrow> new_TaskStatus | Some s \<Rightarrow> s)
      in case update stored of
           Inl err \<Rightarrow> (Inl err, store)
         | Inr newStatus \<Rightarrow>
             (case etcd_putFails deps captureID of
                Some err \<Rightarrow> (Inl err, store)
              | None \<Rightarrow> (Inr newStatus, AList.update captureID newStatus store)))"

text \<open>
  \<open>updateTaskStatus\<close>: one write per capture, in the order of the map; the first
  failure returns at once. \<open>statusUpdate\<close> is the update function handed to the metadata
  store (lines 376-383). The result is the error, the changefeed and the store after the
  call.
\<close>

definition statusUpdate :: "TaskStatus \<Rightarrow> TaskStatus \<Rightarrow> error + TaskStatus" where
  "statusUpdate newSt stored =
     (if SomeOperationsUnapplied stored then Inl ErrWaitingProcessor
      else Inr (stored\<lparr>Tables := Tables newSt, Operation := Operation newSt\<rparr>))"

fun updateTaskStatus ::
  "('sch, 'sched) deps \<Rightarrow> ('sch, 'sched) changeFeed \<Rightarrow> etcd_store \<Rightarrow> (CaptureID \<times> TaskStatus) list
     \<Rightarrow> error option \<times> ('sch, 'sched) changeFeed \<times> etcd_store"
where
  "updateTaskStatus deps c store [] = (None, c, store)"
| "updateTaskStatus deps c store ((captureID, newSt) # rest) =
     (case AtomicPutTaskStatus deps store captureID (statusUpdate newSt) of
        (Inl err, store') \<Rightarrow> (Some err, c, store')
      | (Inr newStatus, store') \<Rightarrow>
          updateTaskStatus deps
            (c\<lparr>taskStatus := AList.update captureID newStatus (taskStatus c)\<rparr>) store' rest)"

text \<open>The store after the writes for a list of captures have all succeeded.\<close>

definition storeAfter :: "(CaptureID \<times> TaskStatus) list \<Rightarrow> etcd_store \<Rightarrow> etcd_store" where
  "storeAfter written store = fold (\<lambda>(captureID, st). AList.update captureID st) written store"

subsection \<open>Balancing orphan tables (changefeed.go, lines 189-372)\<close>

text \<open>\<open>minimumTablesCapture\<close> (lines 193-215); the captures are given by their ids.\<close>

definition MaxInt64 :: int where
  "MaxInt64 = 2 ^ 63 - 1"

definition minimumTablesCapture ::
  "('sch, 'sched) changeFeed \<Rightarrow> CaptureID list \<Rightarrow> (CaptureID \<times> TaskStatus) list \<Rightarrow> CaptureID"
where
  "minimumTablesCapture c captures newTaskStatus =
     (if length captures = 0 then ''''
      else fst (fold (\<lambda>cid (minID, minCount).
                        let tableCount0 = (case map_of (taskStatus c) cid of
                                             Some st \<Rightarrow> int (length (Tables st))
                                           | None \<Rightarrow> 0);
                            tableCount = (case map_of newTaskStatus cid of
                                            Some newStatus \<Rightarrow> int (length (Tables newStatus))
                                          | None \<Rightarrow> tableCount0)
                        in if tableCount < minCount then (cid, tableCount) else (minID, minCount))
                     captures ('''', MaxInt64)))"

definition selectCapture ::
  "('sch, 'sched) changeFeed \<Rightarrow> CaptureID list \<Rightarrow> (CaptureID \<times> TaskStatus) list \<Rightarrow> CaptureID"
where
  "selectCapture c captures newTaskStatus = minimumTablesCapture c captures newTaskStatus"

text \<open>\<open>findTaskStatusWithTable\<close> (lines 226-236).\<close>

definition findTaskStatusWithTable ::
  "(CaptureID \<times> TaskStatus) list \<Rightarrow> TableID \<Rightarrow> (CaptureID \<times> TaskStatus) option"
where
  "findTaskStatusWithTable infos tableID =
     find (\<lambda>(cid, info). map_of (Tables info) tableID \<noteq> None) infos"

text \<open>
  The loop over the tables to clean (lines 257-278). Its state is the map of tables to
  clean (an id no capture owns is dropped from it), the new task statuses and the set of
  cleaned tables.
\<close>

fun cleanLoop ::
  "(CaptureID \<times> TaskStatus) list \<Rightarrow> (TableID \<times> Ts) list
     \<Rightarrow> (TableID \<times> Ts) list \<times> (CaptureID \<times> TaskStatus) list \<times> TableID list
     \<Rightarrow> (TableID \<times> Ts) list \<times> (CaptureID \<times> TaskStatus) list \<times> TableID list"
where
  "cleanLoop infos [] acc = acc"
| "cleanLoop infos ((id', targetTs') # rest) (toClean, newTaskStatus, cleanedTables) =
     (case findTaskStatusWithTable infos id' of
        None \<Rightarrow> cleanLoop infos rest (AList.delete id' toClean, newTaskStatus, cleanedTables)
      | Some (captureID, taskStatus') \<Rightarrow>
          let status0 = (case map_of newTaskStatus captureID of
                           Some st \<Rightarrow> st
                         | None \<Rightarrow> taskStatus');
              status1 = RemoveTable status0 id';
              status2 = status1\<lparr>Operation :=
                          appendTaskOperation (Operation status1) id'
                            \<lparr>Delete = True, BoundaryTs = targetTs', applied = Pending\<rparr>\<rparr>
          in cleanLoop infos rest
               (toClean, AList.update captureID status2 newTaskStatus,
                List.insert id' cleanedTables))"

text \<open>
  The loop over the orphan tables under cyclic replication (lines 283-330). \<open>None\<close> is
  the \<open>return nil\<close> of line 303, which leaves the whole function.
\<close>

fun cyclicLoop ::
  "('sch, 'sched) deps \<Rightarrow> ('sch, 'sched) changeFeed \<Rightarrow> CaptureID list \<Rightarrow> (TableID \<times> Ts) list
     \<Rightarrow> (CaptureID \<times> TaskStatus) list \<times> TableID list
     \<Rightarrow> ((CaptureID \<times> TaskStatus) list \<times> TableID list) option"
where
  "cyclicLoop deps c captures [] acc = Some acc"
| "cyclicLoop deps c captures ((tableID, startTs) # rest) (newTaskStatus, addedTables) =
     (case schema_GetTableNameByID deps (schema c) tableID of
        None \<Rightarrow> cyclicLoop deps c captures rest (newTaskStatus, addedTables)
      | Some tableName \<Rightarrow>
          if cyclic_IsMarkTable deps (Schema tableName) (Table tableName)
          then cyclicLoop deps c captures rest (newTaskStatus, addedTables)
          else
            let (markTableSchameName, markTableTableName) =
                  cyclic_MarkTableName deps (Schema tableName) (Table tableName)
            in case schema_GetTableIDByName deps (schema c) markTableSchameName markTableTableName of
                 None \<Rightarrow> cyclicLoop deps c captures rest (newTaskStatus, addedTables)
               | Some orphanMarkTableID \<Rightarrow>
                   let captureID = selectCapture c captures newTaskStatus
                   in if length captureID = 0 then None
                      else
                        let taskStatus' = (case map_of (taskStatus c) captureID of
                                             Some st \<Rightarrow> st
                                           | None \<Rightarrow> new_TaskStatus);
                            status0 = (case map_of newTaskStatus captureID of
                                         Some st \<Rightarrow> st
                                       | None \<Rightarrow> taskStatus');
                            status1 = status0\<lparr>Tables := AList.update tableID startTs (Tables status0)\<rparr>;
                            status2 = status1\<lparr>Operation :=
                                        appendTaskOperation (Operation status1) tableID
                                          \<lparr>Delete = False, BoundaryTs = startTs, applied = Pending\<rparr>\<rparr>;
                            status3 = status2\<lparr>Tables :=
                                        AList.update orphanMarkTableID startTs (Tables status2)\<rparr>;
                            status4 = status3\<lparr>Operation :=
                                        appendTaskOperation (Operation status3) orphanMarkTableID
                                          \<lparr>Delete = False, BoundaryTs = startTs, applied = Pending\<rparr>\<rparr>
                        in cyclicLoop deps c captures rest
                             (AList.update captureID status4 newTaskStatus,
                              List.insert tableID (List.insert orphanMarkTableID addedTables)))"

text \<open>
  Applying the operations a scheduler gives to the new task statuses. With
  \<open>withDelete = False\<close> this is the loop of lines 333-356 (every operation adds its
  table); with \<open>withDelete = True\<close> it is \<open>applyOperation\<close> of lines 406-434 (a delete
  operation removes its table).
\<close>

definition applyTableOps ::
  "bool \<Rightarrow> (TableID \<times> TableOperation) list \<Rightarrow> (TableID \<times> Ts) list \<Rightarrow> (TableID \<times> Ts) list"
where
  "applyTableOps withDelete operation tbls =
     fold (\<lambda>(tableID, op) acc.
             if withDelete \<and> Delete op then AList.delete tableID acc
             else AList.update tableID (BoundaryTs op) acc)
          operation tbls"

definition applyOperation ::
  "bool \<Rightarrow> ('sch, 'sched) changeFeed \<Rightarrow> (CaptureID \<times> TaskStatus) list \<Rightarrow> Operations
     \<Rightarrow> (CaptureID \<times> TaskStatus) list"
where
  "applyOperation withDelete c newTaskStatus toApplyOperations =
     fold (\<lambda>(captureID, operation) newTaskStatus.
             let status0 = (case map_of newTaskStatus captureID of
                              Some st \<Rightarrow> st
                            | None \<Rightarrow> (case map_of (taskStatus c) captureID of
                                         Some st \<Rightarrow> st
                                       | None \<Rightarrow> new_TaskStatus));
                 status1 = status0\<lparr>Tables := applyTableOps withDelete operation (Tables status0)\<rparr>;
                 status2 = status1\<lparr>Operation := appendTaskOperations (Operation status1) operation\<rparr>
             in AList.update captureID status2 newTaskStatus)
          toApplyOperations newTaskStatus"

text \<open>
  \<open>balanceOrphanTables\<close> (lines 238-372), in the order of its text: the guards and the
  tables to clean (lines 239-278), the assignment of the orphan tables (lines 280-357,
  \<open>assignOrphans\<close>: the new task statuses and the added tables, or nothing when line 303
  returns) and the writes (lines 359-371, \<open>writeBalance\<close>). The result is the error, the
  changefeed and the metadata store after the call.
\<close>

definition assignOrphans ::
  "('sch, 'sched) deps \<Rightarrow> ('sch, 'sched) changeFeed \<Rightarrow> CaptureID list \<Rightarrow> (CaptureID \<times> TaskStatus) list
     \<Rightarrow> ((CaptureID \<times> TaskStatus) list \<times> TableID list) option \<times> ('sch, 'sched) changeFeed"
where
  "assignOrphans deps c captures newTaskStatus =
     (if cyclicEnabled c
      then (cyclicLoop deps c captures (orphanTables c) (newTaskStatus, []), c)
      else
        let (operations, sched') = scheduler_DistributeTables deps (scheduler c) (orphanTables c)
        in (Some (applyOperation False c newTaskStatus operations,
                  concat (map (\<lambda>(captureID, operation). map fst operation) operations)),
            c\<lparr>scheduler := sched'\<rparr>))"

definition writeBalance ::
  "('sch, 'sched) deps \<Rightarrow> ('sch, 'sched) changeFeed \<Rightarrow> etcd_store \<Rightarrow> TableID list
     \<Rightarrow> ((CaptureID \<times> TaskStatus) list \<times> TableID list) option
     \<Rightarrow> error option \<times> ('sch, 'sched) changeFeed \<times> etcd_store"
where
  "writeBalance deps c store cleanedTables assigned =
     (case assigned of
        None \<Rightarrow> (None, c, store)
      | Some (newTaskStatus, addedTables) \<Rightarrow>
          (case updateTaskStatus deps c store newTaskStatus of
             (Some err, c1, store') \<Rightarrow> (Some err, c1, store')
           | (None, c1, store') \<Rightarrow>
               (None,
                c1\<lparr>toCleanTables := fold AList.delete cleanedTables (toCleanTables c1),
                   orphanTables := fold AList.delete addedTables (orphanTables c1)\<rparr>,
                store')))"

definition balanceOrphanTables ::
  "('sch, 'sched) deps \<Rightarrow> ('sch, 'sched) changeFeed \<Rightarrow> etcd_store \<Rightarrow> CaptureID list
     \<Rightarrow> error option \<times> ('sch, 'sched) changeFeed \<times> etcd_store"
where
  "balanceOrphanTables deps c store captures =
     (if length captures = 0 then (None, c, store)
      else if list_ex (\<lambda>(cid, st). SomeOperationsUnapplied st) (taskStatus c) then (None, c, store)
      else
        let c1 = c\<lparr>scheduler := scheduler_AlignCapture deps (scheduler c) captures\<rparr>;
            (toClean, newTaskStatus0, cleanedTables) =
               cleanLoop (taskStatus c1) (toCleanTables c1) (toCleanTables c1, [], []);
            c2 = c1\<lparr>toCleanTables := toClean\<rparr>;
            (assigned, c3) = assignOrphans deps c2 captures newTaskStatus0
        in writeBalance deps c3 store cleanedTables assigned)"

subsection \<open>Rebalancing (changefeed.go, lines 393-469)\<close>

text \<open>
  The loop of lines 452-459 reads the workload of every capture from the metadata store
  and hands it to the scheduler; a failed read returns at once, with the scheduler as the
  reads before it left it.
\<close>

fun resetWorkloads ::
  "('sch, 'sched) deps \<Rightarrow> 'sched \<Rightarrow> CaptureID list \<Rightarrow> error option \<times> 'sched"
where
  "resetWorkloads deps sched [] = (None, sched)"
| "resetWorkloads deps sched (cid # rest) =
     (case etcd_GetTaskWorkload deps cid of
        Inl err \<Rightarrow> (Some err, sched)
      | Inr workloads \<Rightarrow> resetWorkloads deps (scheduler_ResetWorkloads deps sched cid workloads) rest)"

definition tenMinutes :: int where
  "tenMinutes = 600000000000"

text \<open>
  \<open>rebanlanceTables\<close> (lines 393-469); \<open>now\<close> is the reading of the clock.
\<close>

definition rebanlanceTables ::
  "('sch, 'sched) deps \<Rightarrow> ('sch, 'sched) changeFeed \<Rightarrow> etcd_store \<Rightarrow> CaptureID list \<Rightarrow> bool \<Rightarrow> int
     \<Rightarrow> error option \<times> ('sch, 'sched) changeFeed \<times> etcd_store"
where
  "rebanlanceTables deps c store captures rebanlanceNow now =
     (if length captures = 0 then (None, c, store)
      else if cyclicEnabled c then (None, c, store)
      else if list_ex (\<lambda>(cid, st). SomeOperationsUnapplied st) (taskStatus c) then (None, c, store)
      else if length (todoAddOperations c) \<noteq> 0
      then
        (case updateTaskStatus deps c store (applyOperation True c [] (todoAddOperations c)) of
           (Some err, c1, store') \<Rightarrow> (Some err, c1, store')
         | (None, c1, store') \<Rightarrow> (None, c1\<lparr>todoAddOperations := []\<rparr>, store'))
      else if \<not> rebanlanceNow \<and> now - lastRebanlanceTime c < tenMinutes then (None, c, store)
      else
        let c1 = c\<lparr>lastRebanlanceTime := now\<rparr>
        in case resetWorkloads deps (scheduler c1) captures of
             (Some err, sched1) \<Rightarrow> (Some err, c1\<lparr>scheduler := sched1\<rparr>, store)
           | (None, sched1) \<Rightarrow>
               let sched2 = scheduler_AlignCapture deps sched1 captures;
                   ((deleteOperations, addOperations), sched3) =
                      scheduler_CalRebalanceOperates deps sched2 (CheckpointTs (status c1));
                   c2 = c1\<lparr>scheduler := sched3, todoAddOperations := addOperations\<rparr>
               in updateTaskStatus deps c2 store (applyOperation True c2 [] deleteOperations))"

text \<open>\<open>tryBalance\<close> (lines 217-224).\<close>

definition tryBalance ::
  "('sch, 'sched) deps \<Rightarrow> ('sch, 'sched) changeFeed \<Rightarrow> etcd_store \<Rightarrow> CaptureID list \<Rightarrow> bool \<Rightarrow> int
     \<Rightarrow> error option \<times> ('sch, 'sched) changeFeed \<times> etcd_store"
where
  "tryBalance deps c store captures rebanlanceNow now =
     (case balanceOrphanTables deps c store captures of
        (Some err, c1, store1) \<Rightarrow> (Some err, c1, store1)
      | (None, c1, store1) \<Rightarrow> rebanlanceTables deps c1 store1 captures rebanlanceNow now)"

subsection \<open>The table set of the changefeed (changefeed.go, lines 117-187)\<close>

definition updateProcessorInfos ::
  "('sch, 'sched) changeFeed \<Rightarrow> (CaptureID \<times> TaskStatus) list \<Rightarrow> (CaptureID \<times> TaskPosition) list
     \<Rightarrow> ('sch, 'sched) changeFeed"
where
  "updateProcessorInfos c processInfos positions =
     c\<lparr>taskStatus := processInfos, taskPositions := positions\<rparr>"

definition addSchema :: "SchemaID \<Rightarrow> ('sch, 'sched) changeFeed \<Rightarrow> ('sch, 'sched) changeFeed" where
  "addSchema schemaID c =
     (case map_of (schemas c) schemaID of
        Some tids \<Rightarrow> c
      | None \<Rightarrow> c\<lparr>schemas := AList.update schemaID [] (schemas c)\<rparr>)"

definition removeFunc :: "Ts \<Rightarrow> TableID \<Rightarrow> ('sch, 'sched) changeFeed \<Rightarrow> ('sch, 'sched) changeFeed" where
  "removeFunc targetTs' id' c =
     (if map_of (orphanTables c) id' \<noteq> None
      then c\<lparr>orphanTables := AList.delete id' (orphanTables c)\<rparr>
      else c\<lparr>toCleanTables := AList.update id' targetTs' (toCleanTables c)\<rparr>)"

definition removeTable ::
  "SchemaID \<Rightarrow> TableID \<Rightarrow> Ts \<Rightarrow> ('sch, 'sched) changeFeed \<Rightarrow> ('sch, 'sched) changeFeed"
where
  "removeTable sid tid targetTs' c =
     (let c1 = (case map_of (schemas c) sid of
                  Some tids \<Rightarrow> c\<lparr>schemas := AList.update sid (removeAll tid tids) (schemas c)\<rparr>
                | None \<Rightarrow> c);
          c2 = c1\<lparr>tables := AList.delete tid (tables c1)\<rparr>
      in case map_of (partitions c2) tid of
           Some pids \<Rightarrow>
             (let c3 = fold (removeFunc targetTs') pids c2
              in c3\<lparr>partitions := AList.delete tid (partitions c3)\<rparr>)
         | None \<Rightarrow> removeFunc targetTs' tid c2)"

definition dropSchema :: "SchemaID \<Rightarrow> Ts \<Rightarrow> ('sch, 'sched) changeFeed \<Rightarrow> ('sch, 'sched) changeFeed" where
  "dropSchema schemaID targetTs' c =
     (let c1 = (case map_of (schemas c) schemaID of
                  Some tids \<Rightarrow> fold (\<lambda>tid. removeTable schemaID tid targetTs') tids c
                | None \<Rightarrow> c)
      in c1\<lparr>schemas := AList.delete schemaID (schemas c1)\<rparr>)"

definition addTable ::
  "('sch, 'sched) deps \<Rightarrow> SchemaID \<Rightarrow> TableID \<Rightarrow> Ts \<Rightarrow> TableName \<Rightarrow> timodel_TableInfo
     \<Rightarrow> ('sch, 'sched) changeFeed \<Rightarrow> ('sch, 'sched) changeFeed"
where
  "addTable deps sid tid startTs table tblInfo c =
     (if filter_ShouldIgnoreTable deps (Schema table) (Table table) then c
      else if map_of (tables c) tid \<noteq> None then c
      else
        let c1 = (case map_of (schemas c) sid of
                    Some tids \<Rightarrow> c
                  | None \<Rightarrow> c\<lparr>schemas := AList.update sid [] (schemas c)\<rparr>);
            c2 = c1\<lparr>schemas := AList.map_entry sid (List.insert tid) (schemas c1),
                    tables := AList.update tid table (tables c1)\<rparr>
        in case PartitionDefinitions tblInfo of
             Some defs \<Rightarrow>
               c2\<lparr>partitions :=
                     (if defs = [] then AList.delete tid (partitions c2)
                      else AList.update tid defs (AList.delete tid (partitions c2))),
                  orphanTables := fold (\<lambda>pid. AList.update pid startTs) defs (orphanTables c2)\<rparr>
           | None \<Rightarrow> c2\<lparr>orphanTables := AList.update tid startTs (orphanTables c2)\<rparr>)"

subsection \<open>Applying a DDL job to the table set (changefeed.go, lines 487-539)\<close>

text \<open>
  \<open>applyJob\<close>: the result is the pair \<open>(skip, err)\<close> and the changefeed after the call.
  A job of a type that creates a table and has no table info makes the Go code dereference
  nil: that is \<open>NilPanic\<close>.
\<close>

definition applyJobSwitch ::
  "('sch, 'sched) deps \<Rightarrow> ('sch, 'sched) changeFeed \<Rightarrow> Job
     \<Rightarrow> error option \<times> ('sch, 'sched) changeFeed"
where
  "applyJobSwitch deps c job =
     (let schemaID = Job_SchemaID job;
          finishedTS = FinishedTS (BinlogInfo job)
      in case Type job of
           ActionCreateSchema \<Rightarrow> (None, addSchema schemaID c)
         | ActionDropSchema \<Rightarrow> (None, dropSchema schemaID finishedTS c)
         | ActionCreateTable \<Rightarrow>
             (case TableInfo (BinlogInfo job) of
                None \<Rightarrow> (Some NilPanic, c)
              | Some ti \<Rightarrow>
                  (case schema_GetTableNameByID deps (schema c) (TableInfo_ID ti) of
                     None \<Rightarrow> (Some (ErrNotFound (TableInfo_ID ti)), c)
                   | Some tableName \<Rightarrow>
                       (None, addTable deps schemaID (TableInfo_ID ti) finishedTS tableName ti c)))
         | ActionRecoverTable \<Rightarrow>
             (case TableInfo (BinlogInfo job) of
                None \<Rightarrow> (Some NilPanic, c)
              | Some ti \<Rightarrow>
                  (case schema_GetTableNameByID deps (schema c) (TableInfo_ID ti) of
                     None \<Rightarrow> (Some (ErrNotFound (TableInfo_ID ti)), c)
                   | Some tableName \<Rightarrow>
                       (None, addTable deps schemaID (TableInfo_ID ti) finishedTS tableName ti c)))
         | ActionDropTable \<Rightarrow> (None, removeTable schemaID (Job_TableID job) finishedTS c)
         | ActionRenameTable \<Rightarrow>
             (case schema_GetTableNameByID deps (schema c) (Job_TableID job) of
                None \<Rightarrow> (Some (ErrNotFound (Job_TableID job)), c)
              | Some tableName \<Rightarrow>
                  (None, c\<lparr>tables := AList.update (Job_TableID job) tableName (tables c)\<rparr>))
         | ActionTruncateTable \<Rightarrow>
             (let c1 = removeTable schemaID (Job_TableID job) finishedTS c
              in case TableInfo (BinlogInfo job) of
                   None \<Rightarrow> (Some NilPanic, c1)
                 | Some ti \<Rightarrow>
                     (case schema_GetTableNameByID deps (schema c1) (TableInfo_ID ti) of
                        None \<Rightarrow> (Some (ErrNotFound (TableInfo_ID ti)), c1)
                      | Some tableName \<Rightarrow>
                          (None, addTable deps schemaID (TableInfo_ID ti) finishedTS tableName ti c1)))
         | ActionOther n \<Rightarrow> (None, c))"

definition skipIneligible ::
  "('sch, 'sched) changeFeed \<Rightarrow> Job \<Rightarrow> TableID \<Rightarrow> ('sch, 'sched) changeFeed"
where
  "skipIneligible c job tableID =
     (if map_of (tables c) tableID \<noteq> None
      then removeTable (Job_SchemaID job) tableID (FinishedTS (BinlogInfo job)) c
      else c)"

definition applyJob ::
  "('sch, 'sched) deps \<Rightarrow> ('sch, 'sched) changeFeed \<Rightarrow> Job
     \<Rightarrow> (bool \<times> error option) \<times> ('sch, 'sched) changeFeed"
where
  "applyJob deps c job =
     (case TableInfo (BinlogInfo job) of
        Some ti \<Rightarrow>
          if schema_IsIneligibleTableID deps (schema c) (TableInfo_ID ti)
          then ((True, None), skipIneligible c job (TableInfo_ID ti))
          else (case applyJobSwitch deps c job of (err, c') \<Rightarrow> ((False, err), c'))
      | None \<Rightarrow> (case applyJobSwitch deps c job of (err, c') \<Rightarrow> ((False, err), c')))"

subsection \<open>Executing the DDL job at the head of the history (changefeed.go, lines 544-628)\<close>

text \<open>
  \<open>handleDDL\<close>: the result is the error, the changefeed and the metadata store after the
  call, and the calls made on the sink. \<open>schema.FillSchemaName\<close> writes the schema name
  into the job, a field the owner does not read; it is modelled by its error.
\<close>

definition popJob :: "Job \<Rightarrow> ('sch, 'sched) changeFeed \<Rightarrow> ('sch, 'sched) changeFeed" where
  "popJob todoDDLJob c =
     c\<lparr>ddlJobHistory := tl (ddlJobHistory c),
       ddlExecutedTs := FinishedTS (BinlogInfo todoDDLJob),
       ddlState := ChangeFeedSyncDML\<rparr>"

definition execDDL ::
  "('sch, 'sched) deps \<Rightarrow> ('sch, 'sched) changeFeed \<Rightarrow> etcd_store \<Rightarrow> CaptureID list \<Rightarrow> Job
     \<Rightarrow> error option \<times> ('sch, 'sched) changeFeed \<times> etcd_store \<times> sink_call list"
where
  "execDDL deps c store captures todoDDLJob =
     (case balanceOrphanTables deps c store captures of
        (Some err, c1, store1) \<Rightarrow> (Some err, c1, store1, [])
      | (None, c1, store1) \<Rightarrow>
          let (err, calls) =
                (if \<not> cyclicEnabled c1 \<or> cyclicSyncDDL c1
                 then (sink_EmitDDLEvent deps todoDDLJob, [EmitDDLEvent todoDDLJob])
                 else (None, []))
          in case err of
               Some e \<Rightarrow>
                 (Some ErrExecDDLFailed, c1\<lparr>ddlState := ChangeFeedDDLExecuteFailed\<rparr>, store1, calls)
             | None \<Rightarrow>
                 if ddlState c1 \<noteq> ChangeFeedExecDDL then (Some LogFatal, c1, store1, calls)
                 else (None, popJob todoDDLJob c1, store1, calls))"

definition handleDDL ::
  "('sch, 'sched) deps \<Rightarrow> ('sch, 'sched) changeFeed \<Rightarrow> etcd_store \<Rightarrow> CaptureID list
     \<Rightarrow> error option \<times> ('sch, 'sched) changeFeed \<times> etcd_store \<times> sink_call list"
where
  "handleDDL deps c store captures =
     (if ddlState c \<noteq> ChangeFeedWaitToExecDDL then (None, c, store, [])
      else case ddlJobHistory c of
        [] \<Rightarrow> (Some LogFatal, c, store, [])
      | todoDDLJob # rest \<Rightarrow>
          if length (taskStatus c) > length (taskPositions c) then (None, c, store, [])
          else if CheckpointTs (status c) \<noteq> FinishedTS (BinlogInfo todoDDLJob)
          then (None, c, store, [])
          else case schema_HandleDDL deps (schema c) todoDDLJob of
            Inl err \<Rightarrow> (Some err, c, store, [])
          | Inr sch' \<Rightarrow>
              let c1 = c\<lparr>schema := sch'\<rparr>
              in case schema_FillSchemaName deps (schema c1) todoDDLJob of
                   Some err \<Rightarrow> (Some err, c1, store, [])
                 | None \<Rightarrow>
                     let c2 = c1\<lparr>ddlState := ChangeFeedExecDDL\<rparr>
                     in case applyJob deps c2 todoDDLJob of
                          ((skip, Some err), c3) \<Rightarrow> (Some err, c3, store, [])
                        | ((True, None), c3) \<Rightarrow> (None, popJob todoDDLJob c3, store, [])
                        | ((False, None), c3) \<Rightarrow> execDDL deps c3 store captures todoDDLJob)"

subsection \<open>Runs of the owner\<close>

text \<open>
  The loop that calls these functions tick after tick is not among the sources. A run is
  any sequence of the calls it can make on a changefeed, in any order, with any
  arguments, and of the writes other processes make in between (the DDL handler's
  goroutine receiving an entry, a processor changing a task status in the metadata
  store). An error ends the call that returned it, not the run: the loop retries.
\<close>

datatype owner_step =
    StepUpdateProcessorInfos "(CaptureID \<times> TaskStatus) list" "(CaptureID \<times> TaskPosition) list"
  | StepTryBalance "CaptureID list" bool int
  | StepHandleDDL "CaptureID list"
  | StepCalcResolvedTs
  | StepReceiveDDL RawKVEntry
  | StepStoreWrite CaptureID TaskStatus

definition ownerStep ::
  "('sch, 'sched) deps \<Rightarrow> ('sch, 'sched) changeFeed \<times> etcd_store \<Rightarrow> owner_step
     \<Rightarrow> ('sch, 'sched) changeFeed \<times> etcd_store"
where
  "ownerStep deps w step =
     (case w of (c, store) \<Rightarrow>
        (case step of
           StepUpdateProcessorInfos processInfos positions \<Rightarrow>
             (updateProcessorInfos c processInfos positions, store)
         | StepTryBalance captures rebanlanceNow now \<Rightarrow>
             (case tryBalance deps c store captures rebanlanceNow now of
                (err, c', store') \<Rightarrow> (c', store'))
         | StepHandleDDL captures \<Rightarrow>
             (case handleDDL deps c store captures of
                (err, c', store', calls) \<Rightarrow> (c', store'))
         | StepCalcResolvedTs \<Rightarrow>
             (case calcResolvedTs deps c of (err, c', calls) \<Rightarrow> (c', store))
         | StepReceiveDDL rawDDL \<Rightarrow>
             (c\<lparr>ddlHandler :=
                  snd (receiveDDL (entry_UnmarshalDDL deps) (entry_SkipJob deps) (ddlHandler c) rawDDL)\<rparr>,
              store)
         | StepStoreWrite captureID st \<Rightarrow> (c, AList.update captureID st store)))"

definition ownerRun ::
  "('sch, 'sched) deps \<Rightarrow> ('sch, 'sched) changeFeed \<times> etcd_store \<Rightarrow> owner_step list
     \<Rightarrow> ('sch, 'sched) changeFeed \<times> etcd_store"
where
  "ownerRun deps w steps = fold (\<lambda>step w. ownerStep deps w step) steps w"

section \<open>The processor's global-resolved worker (owner\_operator.go, lines 371-616)\<close>

record RawTxn =
  TS :: Ts
  Entries :: "RawKVEntry list"

datatype ProcessorEntryType = ProcessorEntryUnknown | ProcessorEntryDMLS | ProcessorEntryResolved

record ProcessorEntry =
  pe_Entries :: "RawKVEntry list"
  pe_TS :: Ts
  Typ :: ProcessorEntryType

definition NewProcessorDMLsEntry :: "RawKVEntry list \<Rightarrow> Ts \<Rightarrow> ProcessorEntry" where
  "NewProcessorDMLsEntry entries ts = \<lparr>pe_Entries = entries, pe_TS = ts, Typ = ProcessorEntryDMLS\<rparr>"

definition NewProcessorResolvedEntry :: "Ts \<Rightarrow> ProcessorEntry" where
  "NewProcessorResolvedEntry ts = \<lparr>pe_Entries = [], pe_TS = ts, Typ = ProcessorEntryResolved\<rparr>"

text \<open>
  A table's channel. \<open>outputTxn\<close> holds, in order, the transactions the Go channel of
  that name delivers from now on: those buffered and those the copying goroutine of
  \<open>newTxnChannel\<close> will still send. \<open>outputClosed\<close> says whether the channel is closed
  after them (the input ended) or stays open and silent. \<open>putBackTxn\<close> is the field of
  that name.
\<close>

record txnChannel =
  outputTxn :: "RawTxn list"
  outputClosed :: bool
  putBackTxn :: "RawTxn option"

text \<open>\<open>PutBack\<close> (lines 396-401).\<close>

definition PutBack :: "txnChannel \<Rightarrow> RawTxn \<Rightarrow> error + txnChannel" where
  "PutBack p t =
     (if putBackTxn p \<noteq> None then Inl LogFatal else Inr (p\<lparr>putBackTxn := Some t\<rparr>))"

text \<open>
  How a call of \<open>Forward\<close> ends: it returns; it blocks for ever, reading a channel that
  is open and delivers nothing more; or it ends the process. Each outcome carries the
  channel as the call leaves it and the entries the call has sent, in order.
\<close>

datatype forward_result =
    Returned txnChannel "ProcessorEntry list"
  | Blocked txnChannel "ProcessorEntry list"
  | Crashed txnChannel "ProcessorEntry list"

fun sent :: "forward_result \<Rightarrow> ProcessorEntry list" where
  "sent (Returned p out) = out"
| "sent (Blocked p out) = out"
| "sent (Crashed p out) = out"

fun channelAfter :: "forward_result \<Rightarrow> txnChannel" where
  "channelAfter (Returned p out) = p"
| "channelAfter (Blocked p out) = p"
| "channelAfter (Crashed p out) = p"

fun returned :: "forward_result \<Rightarrow> bool" where
  "returned (Returned p out) = True"
| "returned (Blocked p out) = False"
| "returned (Crashed p out) = False"

text \<open>The loop \<open>for t := range p.outputTxn\<close> of \<open>Forward\<close> (lines 386-392); \<open>acc\<close> holds
  the entries sent so far, latest first.\<close>

fun forwardLoop :: "Ts \<Rightarrow> txnChannel \<Rightarrow> RawTxn list \<Rightarrow> ProcessorEntry list \<Rightarrow> forward_result" where
  "forwardLoop ts p [] acc =
     (if outputClosed p then Returned (p\<lparr>outputTxn := []\<rparr>) (rev acc)
      else Blocked (p\<lparr>outputTxn := []\<rparr>) (rev acc))"
| "forwardLoop ts p (t # rest) acc =
     (if TS t > ts
      then (case PutBack (p\<lparr>outputTxn := rest\<rparr>) t of
              Inl err \<Rightarrow> Crashed (p\<lparr>outputTxn := rest\<rparr>) (rev acc)
            | Inr p' \<Rightarrow> Returned p' (rev acc))
      else forwardLoop ts p rest (NewProcessorDMLsEntry (Entries t) (TS t) # acc))"

text \<open>\<open>Forward\<close> (lines 377-394).\<close>

definition Forward :: "txnChannel \<Rightarrow> Ts \<Rightarrow> forward_result" where
  "Forward p ts =
     (case putBackTxn p of
        Some t \<Rightarrow>
          if TS t > ts then Returned p []
          else forwardLoop ts (p\<lparr>putBackTxn := None\<rparr>) (outputTxn p)
                 [NewProcessorDMLsEntry (Entries t) (TS t)]
      | None \<Rightarrow> forwardLoop ts p (outputTxn p) [])"

text \<open>
  The goroutines that one round of the worker starts, one per table, all send on the one
  channel \<open>resolvedEntries\<close>; the order in which the channel takes their entries is the
  scheduler's. A schedule names, step by step, the goroutine whose next entry is taken; a
  step that names no goroutine or one with nothing to send is skipped, and what is left
  when the schedule ends is taken table by table. Every interleaving of the goroutines'
  entries is the merge by some schedule.
\<close>

fun mergeBy :: "nat list \<Rightarrow> 'a list list \<Rightarrow> 'a list" where
  "mergeBy [] xss = concat xss"
| "mergeBy (i # sched) xss =
     (if i < length xss
      then (case xss ! i of
              [] \<Rightarrow> mergeBy sched xss
            | x # xs \<Rightarrow> x # mergeBy sched (xss[i := xs]))
      else mergeBy sched xss)"

text \<open>
  The worker's state: the last global resolved timestamp it handled, the table channels,
  and the entries sent on \<open>resolvedEntries\<close> so far. One round of its loop (lines
  577-615) is given whether the processor has been closed, the result of reading the
  global resolved timestamp (after the retries) and the schedule of the round's
  goroutines. The round ends the worker (\<open>Exit\<close>), goes on to the next round
  (\<open>Continue\<close>), or never ends because \<open>wg.Wait\<close> waits for a goroutine that is blocked
  or has ended the process (\<open>WaitForever\<close>).
\<close>

record workerState =
  lastGlobalResolvedTS :: Ts
  tableInputChans :: "(64 word \<times> txnChannel) list"
  resolvedEntries :: "ProcessorEntry list"

datatype round_outcome = Exit | Continue | WaitForever

definition globalResolvedWorker_round ::
  "nat list \<Rightarrow> bool \<Rightarrow> error + Ts \<Rightarrow> workerState \<Rightarrow> round_outcome \<times> workerState"
where
  "globalResolvedWorker_round sched closed readResult s =
     (if closed then (Exit, s)
      else case readResult of
        Inl err \<Rightarrow> (Exit, s)
      | Inr globalResolvedTS \<Rightarrow>
          if lastGlobalResolvedTS s = globalResolvedTS then (Continue, s)
          else
            let results = map (\<lambda>(table, input). (table, Forward input globalResolvedTS))
                            (tableInputChans s);
                s1 = s\<lparr>lastGlobalResolvedTS := globalResolvedTS,
                       tableInputChans := map (\<lambda>(table, r). (table, channelAfter r)) results,
                       resolvedEntries :=
                         resolvedEntries s @ mergeBy sched (map (\<lambda>(table, r). sent r) results)\<rparr>
            in if list_all (\<lambda>(table, r). returned r) results
               then (Continue,
                     s1\<lparr>resolvedEntries :=
                          resolvedEntries s1 @ [NewProcessorResolvedEntry globalResolvedTS]\<rparr>)
               else (WaitForever, s1))"

text \<open>
  The transactions a channel holds, in the order \<open>Forward\<close> meets them, and the entry
  that carries a transaction: its rows and its commit timestamp, with the type of a DML
  entry. A channel \<open>delivers\<close> beyond a timestamp when it
  holds a transaction above it or is closed.
\<close>

definition pending :: "txnChannel \<Rightarrow> RawTxn list" where
  "pending p = (case putBackTxn p of Some t \<Rightarrow> [t] | None \<Rightarrow> []) @ outputTxn p"

definition dmlEntry :: "RawTxn \<Rightarrow> ProcessorEntry" where
  "dmlEntry t = \<lparr>pe_Entries = Entries t, pe_TS = TS t, Typ = ProcessorEntryDMLS\<rparr>"

definition delivers :: "txnChannel \<Rightarrow> Ts \<Rightarrow> bool" where
  "delivers p ts \<longleftrightarrow> list_ex (\<lambda>t. TS t > ts) (pending p) \<or> outputClosed p"

text \<open>How \<open>Forward\<close> ends, given the entries it has sent and the transactions it has not
  forwarded: the first of them is put back; with none left the call returns when the
  channel is closed and blocks otherwise.\<close>

definition forwardEnd :: "txnChannel \<Rightarrow> ProcessorEntry list \<Rightarrow> RawTxn list \<Rightarrow> forward_result" where
  "forwardEnd p out kept =
     (case kept of
        [] \<Rightarrow> (if outputClosed p then Returned (p\<lparr>outputTxn := [], putBackTxn := None\<rparr>) out
               else Blocked (p\<lparr>outputTxn := [], putBackTxn := None\<rparr>) out)
      | t # rest \<Rightarrow> Returned (p\<lparr>outputTxn := rest, putBackTxn := Some t\<rparr>) out)"

section \<open>The message writer and reader of the sink (package sink, changefeed.go lines 761-1158)\<close>

unbundle bit_operations_syntax

type_synonym byte = "8 word"

text \<open>
  A Go string is a sequence of bytes; \<open>bytesOf\<close> and \<open>stringOf\<close> are the conversions
  \<open>[]byte(s)\<close> and \<open>string(b)\<close>. The length of a Go string is an \<open>int\<close>.
\<close>

definition bytesOf :: "string \<Rightarrow> byte list" where
  "bytesOf s = map (\<lambda>c. of_nat (of_char c)) s"

definition stringOf :: "byte list \<Rightarrow> string" where
  "stringOf bs = map (\<lambda>b. char_of (unat b)) bs"

definition gostr :: "string \<Rightarrow> bool" where
  "gostr s \<longleftrightarrow> length s < 2 ^ 63"

datatype sink_error =
    ErrInvalidSize
  | ErrInvalidFormat
  | ErrUnsupportType byte
  | ErrUnsupportTxnOp
  | ErrGetTableID
  | ErrGetTable
  | ErrJSON

subsection \<open>Byte order and variable-length integers (Go's \<open>encoding/binary\<close>)\<close>

definition PutUint32 :: "32 word \<Rightarrow> byte list" where
  "PutUint32 x = [ucast (drop_bit 24 x), ucast (drop_bit 16 x), ucast (drop_bit 8 x), ucast x]"

definition PutUint64 :: "64 word \<Rightarrow> byte list" where
  "PutUint64 x = [ucast (drop_bit 56 x), ucast (drop_bit 48 x), ucast (drop_bit 40 x),
                  ucast (drop_bit 32 x), ucast (drop_bit 24 x), ucast (drop_bit 16 x),
                  ucast (drop_bit 8 x), ucast x]"

fun BigEndian_Uint32 :: "byte list \<Rightarrow> 32 word" where
  "BigEndian_Uint32 (b0 # b1 # b2 # b3 # bs) =
     ucast b3 OR push_bit 8 (ucast b2) OR push_bit 16 (ucast b1) OR push_bit 24 (ucast b0)"
| "BigEndian_Uint32 bs = 0"

fun BigEndian_Uint64 :: "byte list \<Rightarrow> 64 word" where
  "BigEndian_Uint64 (b0 # b1 # b2 # b3 # b4 # b5 # b6 # b7 # bs) =
     ucast b7 OR push_bit 8 (ucast b6) OR push_bit 16 (ucast b5) OR push_bit 24 (ucast b4) OR
     push_bit 32 (ucast b3) OR push_bit 40 (ucast b2) OR push_bit 48 (ucast b1) OR
     push_bit 56 (ucast b0)"
| "BigEndian_Uint64 bs = 0"

text \<open>\<open>binary.PutUvarint\<close>: seven bits a byte, the low ones first, the top bit of a byte
  set when another byte follows.\<close>

function PutUvarint :: "64 word \<Rightarrow> byte list" where
  "PutUvarint x =
     (if x \<ge> 0x80 then (ucast x OR 0x80) # PutUvarint (drop_bit 7 x) else [ucast x])"
  by pat_completeness auto
termination
  by (relation "measure unat")
     (simp_all add: unat_drop_bit_eq drop_bit_eq_div word_le_nat_alt unat_div)

declare PutUvarint.simps [simp del]

text \<open>\<open>binary.Uvarint\<close>: the value and the number of bytes read; the number is 0 when the
  buffer ends too early and negative on overflow (more than ten bytes, or a tenth byte
  above 1).\<close>

fun Uvarint_loop :: "nat \<Rightarrow> 64 word \<Rightarrow> nat \<Rightarrow> byte list \<Rightarrow> 64 word \<times> int" where
  "Uvarint_loop i x s [] = (0, 0)"
| "Uvarint_loop i x s (b # bs) =
     (if i = 10 then (0, - (int i + 1))
      else if b < 0x80
           then (if i = 9 \<and> b > 1 then (0, - (int i + 1))
                 else (x OR push_bit s (ucast b), int i + 1))
           else Uvarint_loop (i + 1) (x OR push_bit s (ucast (b AND 0x7f))) (s + 7) bs)"

definition Uvarint :: "byte list \<Rightarrow> 64 word \<times> int" where
  "Uvarint buf = Uvarint_loop 0 0 0 buf"

subsection \<open>The checksum (Go's \<open>hash/crc32\<close> with the Castagnoli polynomial)\<close>

definition Castagnoli :: "32 word" where
  "Castagnoli = 0x82f63b78"

definition crc32_tableEntry :: "32 word \<Rightarrow> byte \<Rightarrow> 32 word" where
  "crc32_tableEntry poly i =
     ((\<lambda>crc. if crc AND 1 = 1 then drop_bit 1 crc XOR poly else drop_bit 1 crc) ^^ 8) (ucast i)"

definition crc32_update :: "32 word \<Rightarrow> 32 word \<Rightarrow> byte list \<Rightarrow> 32 word" where
  "crc32_update poly crc p =
     NOT (fold (\<lambda>v crc. crc32_tableEntry poly (ucast crc XOR v) XOR drop_bit 8 crc) p (NOT crc))"

definition castagnoliTable :: "byte list \<Rightarrow> 32 word" where
  "castagnoliTable p = crc32_update Castagnoli 0 p"

subsection \<open>The encoding buffers\<close>

text \<open>
  Modelled from the spec: the package \<open>cdc/sink/encoding\<close> with \<open>Encbuf\<close> and
  \<open>Decbuf\<close> is not among the sources. The spec gives the layout: integers are
  big-endian, a string is its length as a uvarint followed by its bytes, and the checksum
  is a 32-bit integer after the body. The \<open>Put\<close> functions give the bytes that the
  method appends to the buffer. A \<open>Decbuf\<close> holds the bytes not yet read and an error;
  once the error is set, or when the bytes run out, a read gives the zero value, and the
  caller sees that only by asking for the error.
\<close>

definition PutBE32 :: "32 word \<Rightarrow> byte list" where
  "PutBE32 x = PutUint32 x"

definition PutBE64 :: "64 word \<Rightarrow> byte list" where
  "PutBE64 x = PutUint64 x"

definition PutBE32int :: "int \<Rightarrow> byte list" where
  "PutBE32int x = PutBE32 (word_of_int x)"

definition PutBE64int64 :: "64 word \<Rightarrow> byte list" where
  "PutBE64int64 x = PutBE64 x"

definition PutByte :: "byte \<Rightarrow> byte list" where
  "PutByte c = [c]"

definition PutUvarintStr :: "string \<Rightarrow> byte list" where
  "PutUvarintStr s = PutUvarint (of_nat (length s)) @ bytesOf s"

definition PutHash :: "(byte list \<Rightarrow> 32 word) \<Rightarrow> byte list \<Rightarrow> byte list" where
  "PutHash h buf = buf @ PutUint32 (h buf)"

record Decbuf =
  Decbuf_B :: "byte list"
  Decbuf_E :: "sink_error option"

definition Be32 :: "Decbuf \<Rightarrow> 32 word \<times> Decbuf" where
  "Be32 d =
     (if Decbuf_E d \<noteq> None then (0, d)
      else if length (Decbuf_B d) < 4 then (0, d\<lparr>Decbuf_E := Some ErrInvalidSize\<rparr>)
      else (BigEndian_Uint32 (Decbuf_B d), d\<lparr>Decbuf_B := drop 4 (Decbuf_B d)\<rparr>))"

definition Be64 :: "Decbuf \<Rightarrow> 64 word \<times> Decbuf" where
  "Be64 d =
     (if Decbuf_E d \<noteq> None then (0, d)
      else if length (Decbuf_B d) < 8 then (0, d\<lparr>Decbuf_E := Some ErrInvalidSize\<rparr>)
      else (BigEndian_Uint64 (Decbuf_B d), d\<lparr>Decbuf_B := drop 8 (Decbuf_B d)\<rparr>))"

definition Be32int :: "Decbuf \<Rightarrow> int \<times> Decbuf" where
  "Be32int d = (case Be32 d of (x, d') \<Rightarrow> (uint x, d'))"

definition Be64int64 :: "Decbuf \<Rightarrow> 64 word \<times> Decbuf" where
  "Be64int64 d = Be64 d"

definition Byte :: "Decbuf \<Rightarrow> byte \<times> Decbuf" where
  "Byte d =
     (if Decbuf_E d \<noteq> None then (0, d)
      else case Decbuf_B d of
             [] \<Rightarrow> (0, d\<lparr>Decbuf_E := Some ErrInvalidSize\<rparr>)
           | x # rest \<Rightarrow> (x, d\<lparr>Decbuf_B := rest\<rparr>))"

definition Uvarint64 :: "Decbuf \<Rightarrow> 64 word \<times> Decbuf" where
  "Uvarint64 d =
     (if Decbuf_E d \<noteq> None then (0, d)
      else case Uvarint (Decbuf_B d) of
             (x, n) \<Rightarrow>
               if n < 1 then (0, d\<lparr>Decbuf_E := Some ErrInvalidSize\<rparr>)
               else (x, d\<lparr>Decbuf_B := drop (nat n) (Decbuf_B d)\<rparr>))"

definition UvarintStr :: "Decbuf \<Rightarrow> string \<times> Decbuf" where
  "UvarintStr d =
     (case Uvarint64 d of
        (l, d') \<Rightarrow>
          if Decbuf_E d' \<noteq> None then ([], d')
          else if length (Decbuf_B d') < unat l then ([], d'\<lparr>Decbuf_E := Some ErrInvalidSize\<rparr>)
          else (stringOf (take (unat l) (Decbuf_B d')),
                d'\<lparr>Decbuf_B := drop (unat l) (Decbuf_B d')\<rparr>))"

subsection \<open>Messages\<close>

text \<open>
  Modelled from the spec: the types \<open>Message\<close> and \<open>MsgType\<close> of the package and
  \<open>model.Txn\<close>, \<open>model.DML\<close> and \<open>model.DDL\<close> are not among the sources. The
  records hold the fields that the writer and the reader use. The sources do not give the
  values of \<open>TxnType\<close> and \<open>ResolveTsType\<close>, two different constants of a byte type.
  The values of a row (\<open>types.Datum\<close>) are of a type \<open>'d\<close>; a transaction is a DDL
  when its \<open>DDL\<close> is not nil.
\<close>

definition TxnType :: byte where
  "TxnType = 1"

definition ResolveTsType :: byte where
  "ResolveTsType = 2"

datatype SchemaState = StatePublic | StateOther nat

text \<open>Of a column (\<open>timodel.ColumnInfo\<close>) the code reads the state and whether it is
  generated.\<close>

record ColumnInfo =
  ColumnInfo_Name :: string
  ColumnInfo_State :: SchemaState
  IsGenerated :: bool

record 'd DML =
  Database :: string
  DML_Table :: string
  Tp :: int
  Values :: "(string \<times> 'd) list"

record DDL =
  DDL_Database :: string
  DDL_Table :: string
  DDL_Job :: Job

record 'd Txn =
  Txn_Ts :: "64 word"
  DMLs :: "'d DML list"
  Txn_DDL :: "DDL option"

definition IsDDL :: "'d Txn \<Rightarrow> bool" where
  "IsDDL t \<longleftrightarrow> Txn_DDL t \<noteq> None"

record 'd Message =
  MsgType :: byte
  CdcID :: string
  ResloveTs :: "64 word"
  Message_Txn :: "'d Txn option"
  Columns :: "(string \<times> ColumnInfo list) list"

text \<open>
  \<open>encoding/json\<close> is a parameter: how a DDL job, a row value (wrapped in the
  \<open>Datum\<close> struct of line 886 by the writer, unwrapped by \<open>SetInterface\<close> in the
  reader) and a column are written as JSON text and read back. So is the
  \<open>TableInfoGetter\<close>; \<open>TableByID\<close> gives the columns of the table.
\<close>

record 'd json =
  json_MarshalJob :: "Job \<Rightarrow> sink_error + string"
  json_UnmarshalJob :: "string \<Rightarrow> sink_error + Job"
  json_MarshalDatum :: "'d \<Rightarrow> sink_error + string"
  json_UnmarshalDatum :: "string \<Rightarrow> sink_error + 'd"
  json_MarshalColumn :: "ColumnInfo \<Rightarrow> sink_error + string"
  json_UnmarshalColumn :: "string \<Rightarrow> sink_error + ColumnInfo"

record TableInfoGetter =
  GetTableIDByName :: "string \<Rightarrow> string \<Rightarrow> TableID option"
  TableByID :: "TableID \<Rightarrow> ColumnInfo list option"

subsection \<open>The writers (lines 775-992)\<close>

definition MagicIndex :: "32 word" where
  "MagicIndex = 0xBAAAD700"

definition Version :: byte where
  "Version = 1"

text \<open>\<open>const (_ = iota; DmlOp TxnOp = 1 + iota; DdlOp)\<close>: \<open>iota\<close> is 1 on the line of
  \<open>DmlOp\<close> and 2 on the line of \<open>DdlOp\<close>.\<close>

definition DmlOp :: byte where
  "DmlOp = 1 + 1"

definition DdlOp :: byte where
  "DdlOp = 1 + 2"

record writer =
  content :: "byte list"
  version :: byte
  msgType :: byte
  cdcId :: string

definition writer_write :: "writer \<Rightarrow> byte list list \<Rightarrow> writer" where
  "writer_write w bufs = fold (\<lambda>b w. w\<lparr>content := content w @ b\<rparr>) bufs w"

definition writeMeta :: "writer \<Rightarrow> writer" where
  "writeMeta w =
     writer_write w [PutBE32 MagicIndex @ PutByte (version w) @ PutByte (msgType w) @
              PutUvarintStr (cdcId w)]"

definition flush :: "writer \<Rightarrow> byte list" where
  "flush w = content w"

record resolveTsWriter =
  rw_writer :: writer
  rw_ts :: "64 word"

definition NewResloveTsWriter :: "string \<Rightarrow> 64 word \<Rightarrow> resolveTsWriter" where
  "NewResloveTsWriter cdc t =
     \<lparr>rw_writer = \<lparr>content = [], version = Version, msgType = ResolveTsType, cdcId = cdc\<rparr>,
      rw_ts = t\<rparr>"

definition resolveTsWriter_Write :: "resolveTsWriter \<Rightarrow> sink_error + byte list" where
  "resolveTsWriter_Write w =
     (let w1 = writeMeta (rw_writer w);
          buf1 = PutBE64int64 (rw_ts w)
      in Inr (flush (writer_write w1 [buf1])))"

record 'd txnWriter =
  tw_writer :: writer
  tw_crc32 :: "byte list \<Rightarrow> 32 word"
  tw_txn :: "'d Txn"
  tw_infoGetter :: TableInfoGetter

definition NewTxnWriter :: "string \<Rightarrow> 'd Txn \<Rightarrow> TableInfoGetter \<Rightarrow> 'd txnWriter" where
  "NewTxnWriter cdc t getter =
     \<lparr>tw_writer = \<lparr>content = [], version = Version, msgType = TxnType, cdcId = cdc\<rparr>,
      tw_crc32 = castagnoliTable, tw_txn = t, tw_infoGetter = getter\<rparr>"

definition writableColumns :: "ColumnInfo list \<Rightarrow> ColumnInfo list" where
  "writableColumns cols =
     filter (\<lambda>col. ColumnInfo_State col = StatePublic \<and> \<not> IsGenerated col) cols"

text \<open>The loops of \<open>writeDML\<close> (lines 931-973); each function gives the bytes that the
  loop appends to \<open>buf2\<close>, or the error that ends it.\<close>

fun writeValues :: "'d json \<Rightarrow> (string \<times> 'd) list \<Rightarrow> sink_error + byte list" where
  "writeValues js [] = Inr []"
| "writeValues js ((key, val) # vals) =
     (case json_MarshalDatum js val of
        Inl err \<Rightarrow> Inl err
      | Inr v \<Rightarrow>
          (case writeValues js vals of
             Inl err \<Rightarrow> Inl err
           | Inr rest \<Rightarrow> Inr (PutUvarintStr key @ PutUvarintStr v @ rest)))"

fun writeColumns :: "'d json \<Rightarrow> ColumnInfo list \<Rightarrow> sink_error + byte list" where
  "writeColumns js [] = Inr []"
| "writeColumns js (c # cs) =
     (case json_MarshalColumn js c of
        Inl err \<Rightarrow> Inl err
      | Inr cbytes \<Rightarrow>
          (case writeColumns js cs of
             Inl err \<Rightarrow> Inl err
           | Inr rest \<Rightarrow> Inr (PutUvarintStr cbytes @ rest)))"

fun writeDMLs :: "'d json \<Rightarrow> TableInfoGetter \<Rightarrow> 'd DML list \<Rightarrow> sink_error + byte list" where
  "writeDMLs js getter [] = Inr []"
| "writeDMLs js getter (dml # dmls) =
     (case writeValues js (Values dml) of
        Inl err \<Rightarrow> Inl err
      | Inr vals \<Rightarrow>
          (case GetTableIDByName getter (Database dml) (DML_Table dml) of
             None \<Rightarrow> Inl ErrGetTableID
           | Some tblID \<Rightarrow>
               (case TableByID getter tblID of
                  None \<Rightarrow> Inl ErrGetTable
                | Some tableInfo \<Rightarrow>
                    (case writeColumns js (writableColumns tableInfo) of
                       Inl err \<Rightarrow> Inl err
                     | Inr cols \<Rightarrow>
                         (case writeDMLs js getter dmls of
                            Inl err \<Rightarrow> Inl err
                          | Inr rest \<Rightarrow>
                              Inr (PutUvarintStr (Database dml) @
                                   PutUvarintStr (DML_Table dml) @
                                   PutBE32int (Tp dml) @
                                   PutBE32int (int (length (Values dml))) @
                                   vals @
                                   PutBE32int (int (length (writableColumns tableInfo))) @
                                   cols @ rest))))))"

definition writeDML ::
  "'d json \<Rightarrow> writer \<Rightarrow> byte list \<Rightarrow> (byte list \<Rightarrow> 32 word) \<Rightarrow> 'd DML list
     \<Rightarrow> TableInfoGetter \<Rightarrow> sink_error + writer"
where
  "writeDML js w buf1 crc dmls infoGetter =
     (let buf1a = buf1 @ PutByte DmlOp @ PutBE32int (int (length dmls))
      in case writeDMLs js infoGetter dmls of
           Inl err \<Rightarrow> Inl err
         | Inr buf2 \<Rightarrow>
             Inr (writer_write w [buf1a @ PutBE32int (int (length buf2)), PutHash crc buf2]))"

definition txnWriter_Write :: "'d json \<Rightarrow> 'd txnWriter \<Rightarrow> sink_error + byte list" where
  "txnWriter_Write js w =
     (let w1 = writeMeta (tw_writer w);
          buf1 = PutBE64 (Txn_Ts (tw_txn w))
      in case Txn_DDL (tw_txn w) of
           Some ddl \<Rightarrow>
             (case json_MarshalJob js (DDL_Job ddl) of
                Inl err \<Rightarrow> Inl err
              | Inr job \<Rightarrow>
                  let buf2 = PutUvarintStr (DDL_Database ddl) @ PutUvarintStr (DDL_Table ddl) @
                             PutUvarintStr job
                  in Inr (flush (writer_write w1 [buf1 @ PutByte DdlOp @ PutBE32int (int (length buf2)),
                                            PutHash (tw_crc32 w) buf2])))
         | None \<Rightarrow>
             (case writeDML js w1 buf1 (tw_crc32 w) (DMLs (tw_txn w)) (tw_infoGetter w) of
                Inl err \<Rightarrow> Inl err
              | Inr w2 \<Rightarrow> Inr (flush w2)))"

subsection \<open>The reader (lines 994-1157)\<close>

definition FormColumnKey :: "string \<Rightarrow> string \<Rightarrow> string" where
  "FormColumnKey database table = database @ ''-'' @ table"

definition decodeResloveTsMsg :: "Decbuf \<Rightarrow> 'd Message" where
  "decodeResloveTsMsg d =
     (case UvarintStr d of
        (cdc, d1) \<Rightarrow>
          (case Be64int64 d1 of
             (t, d2) \<Rightarrow>
               \<lparr>MsgType = ResolveTsType, CdcID = cdc, ResloveTs = t, Message_Txn = None,
                Columns = []\<rparr>))"

definition decodeDDL :: "'d json \<Rightarrow> Decbuf \<Rightarrow> 64 word \<Rightarrow> sink_error + 'd Txn" where
  "decodeDDL js d t =
     (case Be32int d of
        (bodyLen, d1) \<Rightarrow>
          (case UvarintStr d1 of
             (database, d2) \<Rightarrow>
               (case UvarintStr d2 of
                  (table, d3) \<Rightarrow>
                    (case UvarintStr d3 of
                       (job, d4) \<Rightarrow>
                         (case json_UnmarshalJob js job of
                            Inl err \<Rightarrow> Inl err
                          | Inr j \<Rightarrow>
                              Inr \<lparr>Txn_Ts = t, DMLs = [],
                                   Txn_DDL = Some \<lparr>DDL_Database = database, DDL_Table = table,
                                                   DDL_Job = j\<rparr>\<rparr>)))))"

text \<open>The loop of \<open>decodeDMLValues\<close> (lines 1142-1154): the entries still to read, the
  buffer and the map built so far.\<close>

fun decodeDMLValues_loop ::
  "'d json \<Rightarrow> nat \<Rightarrow> Decbuf \<Rightarrow> (string \<times> 'd) list
     \<Rightarrow> (sink_error + (string \<times> 'd) list) \<times> Decbuf"
where
  "decodeDMLValues_loop js 0 d m = (Inr m, d)"
| "decodeDMLValues_loop js (Suc n) d m =
     (case UvarintStr d of
        (key, d1) \<Rightarrow>
          (case UvarintStr d1 of
             (v, d2) \<Rightarrow>
               (case json_UnmarshalDatum js v of
                  Inl err \<Rightarrow> (Inl err, d2)
                | Inr td \<Rightarrow> decodeDMLValues_loop js n d2 (AList.update key td m))))"

definition decodeDMLValues ::
  "'d json \<Rightarrow> Decbuf \<Rightarrow> (sink_error + (string \<times> 'd) list) \<times> Decbuf"
where
  "decodeDMLValues js d =
     (case Be32int d of (valueLen, d1) \<Rightarrow> decodeDMLValues_loop js (nat valueLen) d1 [])"

text \<open>The inner loop of \<open>decodeDML\<close> (lines 1116-1125).\<close>

fun decodeColumns_loop ::
  "'d json \<Rightarrow> nat \<Rightarrow> Decbuf \<Rightarrow> ColumnInfo list \<Rightarrow> (sink_error + ColumnInfo list) \<times> Decbuf"
where
  "decodeColumns_loop js 0 d columns = (Inr columns, d)"
| "decodeColumns_loop js (Suc n) d columns =
     (case UvarintStr d of
        (c, d1) \<Rightarrow>
          (case json_UnmarshalColumn js c of
             Inl err \<Rightarrow> (Inl err, d1)
           | Inr col \<Rightarrow> decodeColumns_loop js n d1 (columns @ [col])))"

text \<open>The outer loop of \<open>decodeDML\<close> (lines 1097-1128).\<close>

fun decodeDML_loop ::
  "'d json \<Rightarrow> nat \<Rightarrow> Decbuf \<Rightarrow> 'd DML list \<Rightarrow> (string \<times> ColumnInfo list) list
     \<Rightarrow> (sink_error + 'd DML list \<times> (string \<times> ColumnInfo list) list) \<times> Decbuf"
where
  "decodeDML_loop js 0 d dmls columnsMap = (Inr (dmls, columnsMap), d)"
| "decodeDML_loop js (Suc n) d dmls columnsMap =
     (case UvarintStr d of
        (database, d1) \<Rightarrow>
          (case UvarintStr d1 of
             (table, d2) \<Rightarrow>
               (case Be32int d2 of
                  (tp, d3) \<Rightarrow>
                    (case decodeDMLValues js d3 of
                       (Inl err, d4) \<Rightarrow> (Inl err, d4)
                     | (Inr vals, d4) \<Rightarrow>
                         (case Be32int d4 of
                            (columnsLen, d5) \<Rightarrow>
                              (case decodeColumns_loop js (nat columnsLen) d5 [] of
                                 (Inl err, d6) \<Rightarrow> (Inl err, d6)
                               | (Inr columns, d6) \<Rightarrow>
                                   decodeDML_loop js n d6
                                     (dmls @ [\<lparr>Database = database, DML_Table = table, Tp = tp,
                                               Values = vals\<rparr>])
                                     (AList.update (FormColumnKey database table) columns
                                        columnsMap)))))))"

definition decodeDML ::
  "'d json \<Rightarrow> Decbuf \<Rightarrow> 64 word
     \<Rightarrow> sink_error + 'd Txn \<times> (string \<times> ColumnInfo list) list"
where
  "decodeDML js d t =
     (case Be32int d of
        (dmlLen, d1) \<Rightarrow>
          (case Be32int d1 of
             (bodyLen, d2) \<Rightarrow>
               (case decodeDML_loop js (nat dmlLen) d2 [] [] of
                  (Inl err, d3) \<Rightarrow> Inl err
                | (Inr (dmls, columnsMap), d3) \<Rightarrow>
                    Inr (\<lparr>Txn_Ts = t, DMLs = dmls, Txn_DDL = None\<rparr>, columnsMap))))"

definition decodeTxnMsg :: "'d json \<Rightarrow> Decbuf \<Rightarrow> sink_error + 'd Message" where
  "decodeTxnMsg js d =
     (case UvarintStr d of
        (cdc, d1) \<Rightarrow>
          (case Be64 d1 of
             (t, d2) \<Rightarrow>
               (case Byte d2 of
                  (op, d3) \<Rightarrow>
                    if op = DmlOp
                    then (case decodeDML js d3 t of
                            Inl err \<Rightarrow> Inl err
                          | Inr (txn, col) \<Rightarrow>
                              Inr \<lparr>MsgType = TxnType, CdcID = cdc, ResloveTs = 0,
                                   Message_Txn = Some txn, Columns = col\<rparr>)
                    else if op = DdlOp
                    then (case decodeDDL js d3 t of
                            Inl err \<Rightarrow> Inl err
                          | Inr txn \<Rightarrow>
                              Inr \<lparr>MsgType = TxnType, CdcID = cdc, ResloveTs = 0,
                                   Message_Txn = Some txn, Columns = []\<rparr>)
                    else Inl ErrUnsupportTxnOp)))"

definition Decode :: "'d json \<Rightarrow> byte list \<Rightarrow> sink_error + 'd Message" where
  "Decode js data =
     (case Be32 \<lparr>Decbuf_B = data, Decbuf_E = None\<rparr> of
        (magic, d1) \<Rightarrow>
          if magic \<noteq> MagicIndex then Inl ErrInvalidFormat
          else (case Byte d1 of
                  (ver, d2) \<Rightarrow>
                    (case Byte d2 of
                       (t, d3) \<Rightarrow>
                         if t = ResolveTsType then Inr (decodeResloveTsMsg d3)
                         else if t = TxnType then decodeTxnMsg js d3
                         else Inl (ErrUnsupportType t))))"

subsection \<open>The timestamp computation in the words of the specification\<close>

text \<open>
  The minima as the specification describes them: over the target timestamp, every
  reported position, the applied timestamp of every capture's task status, the start
  timestamp of every orphan table and the target timestamp of every table to clean. With
  no position reported at all, the checkpoint minimum starts from the stored resolved
  timestamp instead of the target timestamp (line 643).
\<close>

definition tsBounds :: "('sch, 'sched) changeFeed \<Rightarrow> Ts set" where
  "tsBounds c =
     AppliedTs ` snd ` set (taskStatus c) \<union> snd ` set (orphanTables c) \<union> snd ` set (toCleanTables c)"

definition spec_minResolvedTs :: "('sch, 'sched) changeFeed \<Rightarrow> Ts" where
  "spec_minResolvedTs c =
     Min (insert (targetTs c) (ResolvedTs_pos ` snd ` set (taskPositions c) \<union> tsBounds c))"

definition spec_minCheckpointTs :: "('sch, 'sched) changeFeed \<Rightarrow> Ts" where
  "spec_minCheckpointTs c =
     Min (insert (if taskPositions c = [] then ResolvedTs (status c) else targetTs c)
            (CheckPointTs ` snd ` set (taskPositions c) \<union> tsBounds c))"

text \<open>
  The rest of the computation: the resolved minimum is clamped to the DDL puller's resolved
  timestamp, after pulling the DDL jobs when it was above it; the jobs already executed
  are dropped from the head of the history; a head job finished strictly before the
  resolved minimum lowers the minimum to its finished timestamp and sets the state to
  \<open>WaitToExecDDL\<close>; the checkpoint minimum is clamped to the resolved minimum; each
  stored timestamp becomes the greater of its value and the minimum; and the new
  checkpoint is emitted to the sink when it grew and no DDL is waiting.
\<close>

definition calcResolvedTs_spec ::
  "('sch, 'sched) deps \<Rightarrow> ('sch, 'sched) changeFeed
     \<Rightarrow> error option \<times> ('sch, 'sched) changeFeed \<times> sink_call list"
where
  "calcResolvedTs_spec deps c =
     (let c1 = (if spec_minResolvedTs c > ddlResolvedTs c then snd (pullDDLJob deps c) else c);
          minResolvedTs1 = min (spec_minResolvedTs c) (ddlResolvedTs c1);
          history = dropWhile (\<lambda>job. FinishedTS (BinlogInfo job) \<le> ddlExecutedTs c)
                      (ddlJobHistory c1);
          wait = (history \<noteq> [] \<and> FinishedTS (BinlogInfo (hd history)) < minResolvedTs1);
          minResolvedTs = (if wait then FinishedTS (BinlogInfo (hd history)) else minResolvedTs1);
          minCheckpointTs = min (spec_minCheckpointTs c) minResolvedTs;
          ddlState' = (if wait then ChangeFeedWaitToExecDDL else ddlState c);
          c' = c1\<lparr>ddlJobHistory := history,
                   ddlState := ddlState',
                   status := (status c)\<lparr>ResolvedTs := max (ResolvedTs (status c)) minResolvedTs,
                                        CheckpointTs := max (CheckpointTs (status c)) minCheckpointTs\<rparr>\<rparr>
      in if minCheckpointTs > CheckpointTs (status c) \<and> ddlState' \<noteq> ChangeFeedWaitToExecDDL
         then (sink_EmitCheckpointTs deps minCheckpointTs, c', [EmitCheckpointTs minCheckpointTs])
         else (None, c', []))"

subsection \<open>What the table and balancing operations leave alone\<close>

text \<open>
  \<open>ddl_frame c c'\<close>: the stored status, the DDL state, the DDL job history, the executed
  timestamp and the cyclic settings are the same in \<open>c\<close> and \<open>c'\<close>.
\<close>

definition ddl_frame :: "('sch, 'sched) changeFeed \<Rightarrow> ('sch, 'sched) changeFeed \<Rightarrow> bool" where
  "ddl_frame c c' \<longleftrightarrow>
     status c' = status c \<and> ddlState c' = ddlState c \<and> ddlJobHistory c' = ddlJobHistory c \<and>
     ddlExecutedTs c' = ddlExecutedTs c \<and> cyclicEnabled c' = cyclicEnabled c \<and>
     cyclicSyncDDL c' = cyclicSyncDDL c"

text \<open>
  \<open>wait_inv c\<close>: a changefeed waiting to execute a DDL job has a job at the head of its
  history, finished after the last executed one.
\<close>

definition wait_inv :: "('sch, 'sched) changeFeed \<Rightarrow> bool" where
  "wait_inv c \<longleftrightarrow>
     (ddlState c = ChangeFeedWaitToExecDDL \<longrightarrow>
        ddlJobHistory c \<noteq> [] \<and> ddlExecutedTs c < FinishedTS (BinlogInfo (hd (ddlJobHistory c))))"

subsection \<open>What the writers can encode, and the message that the reader gives back\<close>

text \<open>
  The JSON text of a value is read back as the value, and is a Go string.
\<close>

definition jsonJob_ok :: "'d json \<Rightarrow> Job \<Rightarrow> bool" where
  "jsonJob_ok js job \<longleftrightarrow>
     (case json_MarshalJob js job of
        Inl err \<Rightarrow> False
      | Inr s \<Rightarrow> gostr s \<and> json_UnmarshalJob js s = Inr job)"

definition jsonDatum_ok :: "'d json \<Rightarrow> 'd \<Rightarrow> bool" where
  "jsonDatum_ok js v \<longleftrightarrow>
     (case json_MarshalDatum js v of
        Inl err \<Rightarrow> False
      | Inr s \<Rightarrow> gostr s \<and> json_UnmarshalDatum js s = Inr v)"

definition jsonColumn_ok :: "'d json \<Rightarrow> ColumnInfo \<Rightarrow> bool" where
  "jsonColumn_ok js c \<longleftrightarrow>
     (case json_MarshalColumn js c of
        Inl err \<Rightarrow> False
      | Inr s \<Rightarrow> gostr s \<and> json_UnmarshalColumn js s = Inr c)"

text \<open>
  A row change that the writer can encode: its type and the numbers of its values and of
  the table's writable columns fit 32 bits, the names of the values are the keys of a map,
  the table is known to the \<open>TableInfoGetter\<close>, and the JSON text of every value and
  column is read back as it was.
\<close>

definition encodableDML :: "'d json \<Rightarrow> TableInfoGetter \<Rightarrow> 'd DML \<Rightarrow> bool" where
  "encodableDML js getter dml \<longleftrightarrow>
     gostr (Database dml) \<and> gostr (DML_Table dml) \<and>
     0 \<le> Tp dml \<and> Tp dml < 2 ^ 32 \<and>
     length (Values dml) < 2 ^ 32 \<and>
     distinct (map fst (Values dml)) \<and>
     list_all (\<lambda>(key, v). gostr key \<and> jsonDatum_ok js v) (Values dml) \<and>
     (case GetTableIDByName getter (Database dml) (DML_Table dml) of
        None \<Rightarrow> False
      | Some tblID \<Rightarrow>
          (case TableByID getter tblID of
             None \<Rightarrow> False
           | Some tableInfo \<Rightarrow>
               length (writableColumns tableInfo) < 2 ^ 32 \<and>
               list_all (jsonColumn_ok js) (writableColumns tableInfo)))"

definition encodable :: "'d json \<Rightarrow> TableInfoGetter \<Rightarrow> string \<Rightarrow> 'd Txn \<Rightarrow> bool" where
  "encodable js getter cdc t \<longleftrightarrow>
     gostr cdc \<and>
     (case Txn_DDL t of
        Some ddl \<Rightarrow>
          gostr (DDL_Database ddl) \<and> gostr (DDL_Table ddl) \<and> jsonJob_ok js (DDL_Job ddl) \<and>
          DMLs t = []
      | None \<Rightarrow> length (DMLs t) < 2 ^ 32 \<and> list_all (encodableDML js getter) (DMLs t))"

text \<open>The columns that the message carries: for every row change, in order, the writable
  columns of its table under the key of the table.\<close>

definition columnsStep ::
  "TableInfoGetter \<Rightarrow> 'd DML \<Rightarrow> (string \<times> ColumnInfo list) list
     \<Rightarrow> (string \<times> ColumnInfo list) list"
where
  "columnsStep getter dml m =
     (case GetTableIDByName getter (Database dml) (DML_Table dml) of
        None \<Rightarrow> m
      | Some tblID \<Rightarrow>
          (case TableByID getter tblID of
             None \<Rightarrow> m
           | Some tableInfo \<Rightarrow>
               AList.update (FormColumnKey (Database dml) (DML_Table dml))
                 (writableColumns tableInfo) m))"

definition columnsOf :: "TableInfoGetter \<Rightarrow> 'd DML list \<Rightarrow> (string \<times> ColumnInfo list) list" where
  "columnsOf getter dmls = fold (columnsStep getter) dmls []"

definition messageOf :: "TableInfoGetter \<Rightarrow> string \<Rightarrow> 'd Txn \<Rightarrow> 'd Message" where
  "messageOf getter cdc t =
     \<lparr>MsgType = TxnType, CdcID = cdc, ResloveTs = 0, Message_Txn = Some t,
      Columns = (if IsDDL t then [] else columnsOf getter (DMLs t))\<rparr>"

text \<open>The bytes of a message without the four bytes of the checksum at its end.\<close>

definition withoutChecksum :: "byte list \<Rightarrow> byte list" where
  "withoutChecksum data = take (length data - 4) data"

section \<open>Concrete inputs\<close>

text \<open>The states and inputs at which the theorems below are instantiated.\<close>

definition job_example :: Job where
  "job_example =
     \<lparr>Job_ID = 1, Type = ActionCreateTable, Job_SchemaID = 1, Job_TableID = 45,
      BinlogInfo = \<lparr>FinishedTS = 1200,
                    TableInfo = Some \<lparr>TableInfo_ID = 45, PartitionDefinitions = None\<rparr>\<rparr>\<rparr>"

text \<open>Collaborators that always succeed; the scheduler gives the first orphan table to
  capture \<open>a\<close> and the others to capture \<open>b\<close>.\<close>

definition addOp :: "Ts \<Rightarrow> TableOperation" where
  "addOp ts = \<lparr>Delete = False, BoundaryTs = ts, applied = Pending\<rparr>"

definition deps_ok :: "(unit, unit) deps" where
  "deps_ok =
     \<lparr>schema_HandleDDL = (\<lambda>sch job. Inr sch),
      schema_FillSchemaName = (\<lambda>sch job. None),
      schema_IsIneligibleTableID = (\<lambda>sch tid. False),
      schema_GetTableNameByID = (\<lambda>sch tid. Some \<lparr>Schema = ''test'', Table = ''t''\<rparr>),
      schema_GetTableIDByName = (\<lambda>sch s t. None),
      filter_ShouldIgnoreTable = (\<lambda>s t. False),
      filter_ShouldDiscardDDL = (\<lambda>t. False),
      sink_EmitDDLEvent = (\<lambda>job. None),
      sink_EmitCheckpointTs = (\<lambda>ts. None),
      cyclic_IsMarkTable = (\<lambda>s t. False),
      cyclic_MarkTableName = (\<lambda>s t. (s, t)),
      scheduler_AlignCapture = (\<lambda>sched captures. sched),
      scheduler_DistributeTables =
        (\<lambda>sched tbls.
           (case tbls of
              [] \<Rightarrow> []
            | (t, ts) # rest \<Rightarrow>
                [(''a'', [(t, addOp ts)]), (''b'', map (\<lambda>(t', ts'). (t', addOp ts')) rest)],
            sched)),
      scheduler_ResetWorkloads = (\<lambda>sched cid w. sched),
      scheduler_CalRebalanceOperates = (\<lambda>sched ts. (([], []), sched)),
      etcd_GetTaskWorkload = (\<lambda>cid. Inr []),
      etcd_putFails = (\<lambda>cid. None),
      entry_UnmarshalDDL = (\<lambda>e. Inr None),
      entry_SkipJob = (\<lambda>j. False)\<rparr>"

text \<open>The same collaborators with a sink that refuses every DDL event, and with a
  metadata store that refuses the writes for capture \<open>b\<close>.\<close>

definition deps_sink_fails :: "(unit, unit) deps" where
  "deps_sink_fails = deps_ok\<lparr>sink_EmitDDLEvent := (\<lambda>job. Some (ErrExternal 1))\<rparr>"

definition deps_put_fails :: "(unit, unit) deps" where
  "deps_put_fails =
     deps_ok\<lparr>etcd_putFails := (\<lambda>cid. if cid = ''b'' then Some (ErrExternal 2) else None)\<rparr>"

text \<open>
  A changefeed with two captures, both reporting a position, no table operation in
  flight, and the DDL job \<open>job_example\<close> (finished at 1200) at the head of its history.
\<close>

definition emptyStatus :: TaskStatus where
  "emptyStatus = \<lparr>Tables = [], Operation = []\<rparr>"

definition cf_sync :: "(unit, unit) changeFeed" where
  "cf_sync =
     \<lparr>cyclicSyncDDL = False,
      status = \<lparr>ResolvedTs = 1100, CheckpointTs = 1000\<rparr>,
      schema = (),
      ddlState = ChangeFeedSyncDML,
      targetTs = MaxUint64,
      taskStatus = [(''a'', emptyStatus), (''b'', emptyStatus)],
      taskPositions = [(''a'', \<lparr>CheckPointTs = 1150, ResolvedTs_pos = 1300\<rparr>),
                       (''b'', \<lparr>CheckPointTs = 1250, ResolvedTs_pos = 1400\<rparr>)],
      scheduler = (),
      cyclicEnabled = False,
      ddlHandler = \<lparr>resolvedTS = 1500, ddlJobs = []\<rparr>,
      ddlResolvedTs = 1500,
      ddlJobHistory = [job_example],
      ddlExecutedTs = 0,
      schemas = [],
      tables = [],
      partitions = [],
      orphanTables = [],
      toCleanTables = [],
      todoAddOperations = [],
      lastRebanlanceTime = 0\<rparr>"

text \<open>
  A run from \<open>cf_sync\<close>: the timestamps are computed, the captures report new
  positions, the timestamps are computed again. After the first step the changefeed waits
  for the job with the checkpoint still behind (\<open>cf_early\<close>); at the end the checkpoint
  has reached the job's finished timestamp (\<open>cf_due\<close>).
\<close>

definition steps_due :: "owner_step list" where
  "steps_due =
     [StepCalcResolvedTs,
      StepUpdateProcessorInfos
        [(''a'', emptyStatus), (''b'', emptyStatus)]
        [(''a'', \<lparr>CheckPointTs = 1250, ResolvedTs_pos = 1300\<rparr>),
         (''b'', \<lparr>CheckPointTs = 1250, ResolvedTs_pos = 1400\<rparr>)],
      StepCalcResolvedTs]"

definition cf_early :: "(unit, unit) changeFeed" where
  "cf_early =
     cf_sync\<lparr>ddlState := ChangeFeedWaitToExecDDL,
             status := \<lparr>ResolvedTs = 1200, CheckpointTs = 1150\<rparr>\<rparr>"

definition cf_due :: "(unit, unit) changeFeed" where
  "cf_due =
     cf_sync\<lparr>ddlState := ChangeFeedWaitToExecDDL,
             status := \<lparr>ResolvedTs = 1200, CheckpointTs = 1200\<rparr>,
             taskPositions := [(''a'', \<lparr>CheckPointTs = 1250, ResolvedTs_pos = 1300\<rparr>),
                               (''b'', \<lparr>CheckPointTs = 1250, ResolvedTs_pos = 1400\<rparr>)]\<rparr>"

text \<open>
  The same run when capture \<open>b\<close>, alive and with a task status, has reported no
  position, while the metadata store still holds the position of a capture \<open>z\<close> that
  is gone: two task statuses and two positions are loaded.
\<close>

definition steps_zombie :: "owner_step list" where
  "steps_zombie =
     [StepCalcResolvedTs,
      StepUpdateProcessorInfos
        [(''a'', emptyStatus), (''b'', emptyStatus)]
        [(''a'', \<lparr>CheckPointTs = 1250, ResolvedTs_pos = 1300\<rparr>),
         (''z'', \<lparr>CheckPointTs = 1250, ResolvedTs_pos = 1400\<rparr>)],
      StepCalcResolvedTs]"

definition cf_zombie :: "(unit, unit) changeFeed" where
  "cf_zombie =
     cf_sync\<lparr>ddlState := ChangeFeedWaitToExecDDL,
             status := \<lparr>ResolvedTs = 1200, CheckpointTs = 1200\<rparr>,
             taskPositions := [(''a'', \<lparr>CheckPointTs = 1250, ResolvedTs_pos = 1300\<rparr>),
                               (''z'', \<lparr>CheckPointTs = 1250, ResolvedTs_pos = 1400\<rparr>)]\<rparr>"

text \<open>The changefeed and the metadata store after the job at the head of \<open>cf_due\<close> has
  been executed: table 45 is created and given to capture \<open>a\<close>.\<close>

definition store_done :: etcd_store where
  "store_done =
     [(''a'', \<lparr>Tables = [(45, 1200)], Operation = [(45, addOp 1200)]\<rparr>), (''b'', emptyStatus)]"

definition cf_done :: "(unit, unit) changeFeed" where
  "cf_done =
     cf_due\<lparr>schemas := [(1, [45])],
            tables := [(45, \<lparr>Schema = ''test'', Table = ''t''\<rparr>)],
            taskStatus := store_done\<rparr>"

text \<open>Variants of \<open>cf_sync\<close>: capture \<open>a\<close> resolved exactly up to the job's finished
  timestamp; capture \<open>b\<close> without a reported position; no capture at all; an operation
  pending on capture \<open>a\<close> with an orphan table waiting; cyclic replication enabled.\<close>

definition cf_eq :: "(unit, unit) changeFeed" where
  "cf_eq = cf_sync\<lparr>taskPositions := [(''a'', \<lparr>CheckPointTs = 1150, ResolvedTs_pos = 1200\<rparr>),
                                      (''b'', \<lparr>CheckPointTs = 1250, ResolvedTs_pos = 1400\<rparr>)]\<rparr>"

definition cf_few :: "(unit, unit) changeFeed" where
  "cf_few = cf_sync\<lparr>taskPositions := [(''a'', \<lparr>CheckPointTs = 1150, ResolvedTs_pos = 1300\<rparr>)]\<rparr>"

definition cf_none :: "(unit, unit) changeFeed" where
  "cf_none = cf_sync\<lparr>taskStatus := [], taskPositions := []\<rparr>"

definition cf_busy :: "(unit, unit) changeFeed" where
  "cf_busy = cf_sync\<lparr>taskStatus := [(''a'', \<lparr>Tables = [(7, 900)], Operation = [(7, addOp 900)]\<rparr>),
                                    (''b'', emptyStatus)],
                     orphanTables := [(8, 1000)],
                     toCleanTables := [(7, 1000)]\<rparr>"

definition cf_cyclic :: "(unit, unit) changeFeed" where
  "cf_cyclic = cf_sync\<lparr>cyclicEnabled := True, todoAddOperations := [(''a'', [(9, addOp 1000)])]\<rparr>"

text \<open>\<open>cf_sync\<close> with two orphan tables, one for each capture.\<close>

definition cf_orphans :: "(unit, unit) changeFeed" where
  "cf_orphans = cf_sync\<lparr>orphanTables := [(1, 1000), (2, 1000)]\<rparr>"

text \<open>The statuses that balancing \<open>cf_orphans\<close> writes for the two captures.\<close>

definition status_a :: TaskStatus where
  "status_a = \<lparr>Tables = [(1, 1000)], Operation = [(1, addOp 1000)]\<rparr>"

definition status_b :: TaskStatus where
  "status_b = \<lparr>Tables = [(2, 1000)], Operation = [(2, addOp 1000)]\<rparr>"

text \<open>
  Two table channels in commit order, both open: one with nothing put back, one with a
  transaction put back by an earlier round; and a worker that has handled no global
  resolved timestamp yet.
\<close>

definition rawTxn :: "Ts \<Rightarrow> RawTxn" where
  "rawTxn ts = \<lparr>TS = ts,
             Entries = [\<lparr>OpType = OpTypePut, Key = [1], Value = [2], RawKVEntry_Ts = ts\<rparr>]\<rparr>"

definition chan_a :: txnChannel where
  "chan_a = \<lparr>outputTxn = [rawTxn 5, rawTxn 8, rawTxn 12], outputClosed = False, putBackTxn = None\<rparr>"

definition chan_b :: txnChannel where
  "chan_b = \<lparr>outputTxn = [rawTxn 10, rawTxn 11], outputClosed = False, putBackTxn = Some (rawTxn 9)\<rparr>"

definition worker0 :: workerState where
  "worker0 = \<lparr>lastGlobalResolvedTS = 0, tableInputChans = [(1, chan_a), (2, chan_b)],
              resolvedEntries = []\<rparr>"

text \<open>
  A table \<open>test.t\<close> known to the \<open>TableInfoGetter\<close>, with a generated column and
  a column that is not public, so with no writable column. A transaction at timestamp
  5000 with one row change on \<open>test.t\<close> that carries no values, and a transaction with
  no row change. Neither carries a job, a value or a writable column, so no JSON text is
  written for them or read back.
\<close>

definition getter_ex :: TableInfoGetter where
  "getter_ex =
     \<lparr>GetTableIDByName = (\<lambda>db t. if db = ''test'' \<and> t = ''t'' then Some 45 else None),
      TableByID =
        (\<lambda>tblID. if tblID = 45
                  then Some [\<lparr>ColumnInfo_Name = ''g'', ColumnInfo_State = StatePublic,
                              IsGenerated = True\<rparr>,
                             \<lparr>ColumnInfo_Name = ''old'', ColumnInfo_State = StateOther 1,
                              IsGenerated = False\<rparr>]
                  else None)\<rparr>"

definition txn_ex :: "'d Txn" where
  "txn_ex =
     \<lparr>Txn_Ts = 5000,
      DMLs = [\<lparr>Database = ''test'', DML_Table = ''t'', Tp = 1, Values = []\<rparr>],
      Txn_DDL = None\<rparr>"

definition txn_empty :: "'d Txn" where
  "txn_empty = \<lparr>Txn_Ts = 5000, DMLs = [], Txn_DDL = None\<rparr>"

text \<open>
  The bytes of the messages for these transactions and the changefeed id \<open>cdc\<close>. For
  the row change: the envelope up to the length of the body (magic number, version 1,
  type 1, the id, the timestamp, the operation 2, one row change, 19 bytes of body), and
  the body (the names \<open>test\<close> and \<open>t\<close>, the type 1, no values, no columns). For the
  transaction with no row change: the envelope, with no row change and no byte of body.
  The messages that the reader gives for them.
\<close>

definition front_ex :: "byte list" where
  "front_ex = [186, 170, 215, 0, 1, 1, 3, 99, 100, 99, 0, 0, 0, 0, 0, 0, 19, 136, 2,
               0, 0, 0, 1, 0, 0, 0, 19]"

definition body_ex :: "byte list" where
  "body_ex = [4, 116, 101, 115, 116, 1, 116, 0, 0, 0, 1, 0, 0, 0, 0, 0, 0, 0, 0]"

definition msg_ex :: "'d Message" where
  "msg_ex =
     \<lparr>MsgType = TxnType, CdcID = ''cdc'', ResloveTs = 0, Message_Txn = Some txn_ex,
      Columns = [(''test-t'', [])]\<rparr>"

definition front_empty :: "byte list" where
  "front_empty = [186, 170, 215, 0, 1, 1, 3, 99, 100, 99, 0, 0, 0, 0, 0, 0, 19, 136, 2,
                  0, 0, 0, 0, 0, 0, 0, 0]"

definition msg_empty :: "'d Message" where
  "msg_empty =
     \<lparr>MsgType = TxnType, CdcID = ''cdc'', ResloveTs = 0, Message_Txn = Some txn_empty,
      Columns = []\<rparr>"

section \<open>The loops of calcResolvedTs compute minima\<close>

lemma Min_insert_min:
  "finite S \<Longrightarrow> Min (insert (min a b) S) = Min (insert a (insert b S))"
  for a b :: "'a::linorder"
  by (cases "S = {}") (simp_all add: min.assoc)

lemma fold_clamp_Min:
  "fold (\<lambda>x m. if m > f x then f x else m) xs m0 = Min (insert m0 (f ` set xs))"
  for m0 :: "'a::linorder"
proof (induction xs arbitrary: m0)
  case Nil
  then show ?case by simp
next
  case (Cons x xs)
  have step: "(if m0 > f x then f x else m0) = min m0 (f x)"
    by (auto simp: min_def)
  have "fold (\<lambda>x m. if m > f x then f x else m) (x # xs) m0
          = Min (insert (min m0 (f x)) (f ` set xs))"
    using Cons.IH [of "min m0 (f x)"] step by simp
  also have "\<dots> = Min (insert m0 (insert (f x) (f ` set xs)))"
    by (rule Min_insert_min) simp
  finally show ?case by simp
qed

lemma fold_pair:
  "fold (\<lambda>x (a, b). (g x a, h x b)) xs (a0, b0) = (fold g xs a0, fold h xs b0)"
  by (induction xs arbitrary: a0 b0) simp_all

lemma minOverPositions_Min:
  "minOverPositions ps (r, k) =
     (Min (insert r (ResolvedTs_pos ` snd ` set ps)), Min (insert k (CheckPointTs ` snd ` set ps)))"
proof -
  have "minOverPositions ps (r, k) =
          (fold (\<lambda>x m. if m > ResolvedTs_pos (snd x) then ResolvedTs_pos (snd x) else m) ps r,
           fold (\<lambda>x m. if m > CheckPointTs (snd x) then CheckPointTs (snd x) else m) ps k)"
    unfolding minOverPositions_def
    by (subst fold_pair [symmetric]) (simp add: case_prod_unfold)
  then show ?thesis
    by (simp add: fold_clamp_Min image_image)
qed

lemma minOverTaskStatus_Min:
  "minOverTaskStatus ss (r, k) =
     (Min (insert r (AppliedTs ` snd ` set ss)), Min (insert k (AppliedTs ` snd ` set ss)))"
proof -
  have "minOverTaskStatus ss (r, k) =
          (fold (\<lambda>x m. if m > AppliedTs (snd x) then AppliedTs (snd x) else m) ss r,
           fold (\<lambda>x m. if m > AppliedTs (snd x) then AppliedTs (snd x) else m) ss k)"
    unfolding minOverTaskStatus_def
    by (subst fold_pair [symmetric]) (simp add: case_prod_unfold Let_def)
  then show ?thesis
    by (simp add: fold_clamp_Min image_image)
qed

lemma minOverTables_Min:
  "minOverTables ts (r, k) =
     (Min (insert r (snd ` set ts)), Min (insert k (snd ` set ts)))"
proof -
  have "minOverTables ts (r, k) =
          (fold (\<lambda>x m. if m > snd x then snd x else m) ts r,
           fold (\<lambda>x m. if m > snd x then snd x else m) ts k)"
    unfolding minOverTables_def
    by (subst fold_pair [symmetric]) (simp add: case_prod_unfold)
  then show ?thesis
    by (simp add: fold_clamp_Min)
qed

lemma Min_insert_Min:
  "finite A \<Longrightarrow> finite B \<Longrightarrow> Min (insert (Min (insert a A)) B) = Min (insert a (A \<union> B))"
  for a :: "'a::linorder"
proof (cases "B = {}")
  case True
  then show ?thesis by simp
next
  case False
  assume fin: "finite A" "finite B"
  have "Min (insert (Min (insert a A)) B) = min (Min (insert a A)) (Min B)"
    using fin False by simp
  also have "\<dots> = Min (insert a A \<union> B)"
    using fin False by (subst Min_Un) simp_all
  finally show ?thesis by simp
qed


lemma pullDDLJob_frame:
  "fst (pullDDLJob deps c) = None"
  "ddlState (snd (pullDDLJob deps c)) = ddlState c"
  "status (snd (pullDDLJob deps c)) = status c"
  "ddlExecutedTs (snd (pullDDLJob deps c)) = ddlExecutedTs c"
  by (simp_all add: pullDDLJob_def PullDDL_def)

lemma minOver_chain:
  "minOverTables T (minOverTables O' (minOverTaskStatus S (Min (insert a P), Min (insert b Q))))
   = (Min (insert a (P \<union> (AppliedTs ` snd ` set S \<union> snd ` set O' \<union> snd ` set T))),
      Min (insert b (Q \<union> (AppliedTs ` snd ` set S \<union> snd ` set O' \<union> snd ` set T))))"
  if "finite P" "finite Q"
proof -
  let ?A = "AppliedTs ` snd ` set S" and ?O = "snd ` set O'" and ?T = "snd ` set T"
  have fin: "finite ?A" "finite ?O" "finite ?T" by simp_all
  have 1: "Min (insert (Min (insert (Min (insert (Min (insert x X)) ?A)) ?O)) ?T)
            = Min (insert x (X \<union> (?A \<union> ?O \<union> ?T)))" if "finite X" for x :: Ts and X
  proof -
    have "Min (insert (Min (insert x X)) ?A) = Min (insert x (X \<union> ?A))"
      using that fin by (intro Min_insert_Min) simp_all
    moreover have "Min (insert (Min (insert x (X \<union> ?A))) ?O) = Min (insert x ((X \<union> ?A) \<union> ?O))"
      using that fin by (intro Min_insert_Min) simp_all
    moreover have "Min (insert (Min (insert x ((X \<union> ?A) \<union> ?O))) ?T)
                     = Min (insert x (((X \<union> ?A) \<union> ?O) \<union> ?T))"
      using that fin by (intro Min_insert_Min) simp_all
    ultimately show ?thesis by (simp only: Un_assoc)
  qed
  show ?thesis
    by (simp only: minOverTaskStatus_Min minOverTables_Min 1 [OF that(1)] 1 [OF that(2)])
qed

lemma minima_Min:
  "minOverTables (toCleanTables c)
     (minOverTables (orphanTables c)
        (minOverTaskStatus (taskStatus c)
           (if length (taskPositions c) = 0
            then (targetTs c, ResolvedTs (status c))
            else minOverPositions (taskPositions c) (targetTs c, targetTs c))))
   = (spec_minResolvedTs c, spec_minCheckpointTs c)"
proof (cases "taskPositions c = []")
  case True
  have "minOverTables (toCleanTables c) (minOverTables (orphanTables c)
          (minOverTaskStatus (taskStatus c)
             (Min (insert (targetTs c) {}), Min (insert (ResolvedTs (status c)) {}))))
        = (spec_minResolvedTs c, spec_minCheckpointTs c)"
    unfolding minOver_chain [OF finite.emptyI finite.emptyI]
    using True by (simp add: spec_minResolvedTs_def spec_minCheckpointTs_def tsBounds_def)
  then show ?thesis using True by simp
next
  case False
  have "minOverTables (toCleanTables c) (minOverTables (orphanTables c)
          (minOverTaskStatus (taskStatus c)
             (Min (insert (targetTs c) (ResolvedTs_pos ` snd ` set (taskPositions c))),
              Min (insert (targetTs c) (CheckPointTs ` snd ` set (taskPositions c))))))
        = (spec_minResolvedTs c, spec_minCheckpointTs c)"
    using False
    by (subst minOver_chain)
       (simp_all only: spec_minResolvedTs_def spec_minCheckpointTs_def tsBounds_def if_False
          finite_imageI finite_set)
  then show ?thesis using False by (simp only: minOverPositions_Min length_0_conv if_False)
qed

lemma pullAndClamp_min:
  "pullAndClamp deps c r =
     (None, (if r > ddlResolvedTs c then snd (pullDDLJob deps c) else c),
      min r (ddlResolvedTs (if r > ddlResolvedTs c then snd (pullDDLJob deps c) else c)))"
proof (cases "r > ddlResolvedTs c")
  case True
  obtain e c1 where p: "pullDDLJob deps c = (e, c1)" by (cases "pullDDLJob deps c")
  with pullDDLJob_frame(1) [of deps c] have "e = None" by simp
  with p True show ?thesis by (auto simp: pullAndClamp_def min_def)
next
  case False
  then show ?thesis by (auto simp: pullAndClamp_def min_def)
qed

lemma waitForDDL_eq:
  "waitForDDL c r =
     (let history = dropWhile (\<lambda>job. FinishedTS (BinlogInfo job) \<le> ddlExecutedTs c) (ddlJobHistory c);
          wait = (history \<noteq> [] \<and> FinishedTS (BinlogInfo (hd history)) < r)
      in (c\<lparr>ddlJobHistory := history,
            ddlState := (if wait then ChangeFeedWaitToExecDDL else ddlState c)\<rparr>,
          if wait then FinishedTS (BinlogInfo (hd history)) else r))"
  by (cases "dropWhile (\<lambda>job. FinishedTS (BinlogInfo job) \<le> ddlExecutedTs c) (ddlJobHistory c)")
     (simp_all add: waitForDDL_def Let_def del: dropWhile_eq_Nil_conv)

lemma commitTs_aux:
  "(let c1 = (if r > ResolvedTs (status c)
              then c\<lparr>status := (status c)\<lparr>ResolvedTs := r\<rparr>\<rparr>
              else c)
    in if k' > CheckpointTs (status c1)
       then
         let c2 = c1\<lparr>status := (status c1)\<lparr>CheckpointTs := k'\<rparr>\<rparr>
         in if ddlState c2 \<noteq> ChangeFeedWaitToExecDDL
            then (sink_EmitCheckpointTs deps k', c2, [EmitCheckpointTs k'])
            else (None, c2, [])
       else (None, c1, []))
   = (let c' = c\<lparr>status := (status c)\<lparr>ResolvedTs := max (ResolvedTs (status c)) r,
                                       CheckpointTs := max (CheckpointTs (status c)) k'\<rparr>\<rparr>
      in if k' > CheckpointTs (status c) \<and> ddlState c \<noteq> ChangeFeedWaitToExecDDL
         then (sink_EmitCheckpointTs deps k', c', [EmitCheckpointTs k'])
         else (None, c', []))"
proof (cases "r > ResolvedTs (status c)")
  case r: True
  show ?thesis
  proof (cases "k' > CheckpointTs (status c)")
    case True
    with r show ?thesis by (auto simp: Let_def max_def)
  next
    case False
    with r show ?thesis by (auto simp: Let_def max_def)
  qed
next
  case r: False
  show ?thesis
  proof (cases "k' > CheckpointTs (status c)")
    case True
    with r show ?thesis by (auto simp: Let_def max_def)
  next
    case False
    with r show ?thesis by (auto simp: Let_def max_def)
  qed
qed

lemma commitTs_eq:
  "commitTs deps c r k =
     (let k' = min k r;
          c' = c\<lparr>status := (status c)\<lparr>ResolvedTs := max (ResolvedTs (status c)) r,
                                      CheckpointTs := max (CheckpointTs (status c)) k'\<rparr>\<rparr>
      in if k' > CheckpointTs (status c) \<and> ddlState c \<noteq> ChangeFeedWaitToExecDDL
         then (sink_EmitCheckpointTs deps k', c', [EmitCheckpointTs k'])
         else (None, c', []))"
proof -
  have k: "(if k > r then r else k) = min k r" by (auto simp: min_def)
  show ?thesis
    unfolding commitTs_def k
    by (subst (1 4) Let_def) (rule commitTs_aux)
qed


lemma pullDDLJob_frame_if:
  "ddlState (if b then snd (pullDDLJob deps c) else c) = ddlState c"
  "status (if b then snd (pullDDLJob deps c) else c) = status c"
  "ddlExecutedTs (if b then snd (pullDDLJob deps c) else c) = ddlExecutedTs c"
  by (simp_all add: pullDDLJob_frame)

lemma wait_commit:
  assumes "ddlState c1 = ddlState c" "status c1 = status c" "ddlExecutedTs c1 = ddlExecutedTs c"
  shows "(case waitForDDL c1 r1 of (c2, r2) \<Rightarrow> commitTs deps c2 r2 k) =
     (let history = dropWhile (\<lambda>job. FinishedTS (BinlogInfo job) \<le> ddlExecutedTs c)
                      (ddlJobHistory c1);
          wait = (history \<noteq> [] \<and> FinishedTS (BinlogInfo (hd history)) < r1);
          minResolvedTs = (if wait then FinishedTS (BinlogInfo (hd history)) else r1);
          minCheckpointTs = min k minResolvedTs;
          ddlState' = (if wait then ChangeFeedWaitToExecDDL else ddlState c);
          c' = c1\<lparr>ddlJobHistory := history,
                   ddlState := ddlState',
                   status := (status c)\<lparr>ResolvedTs := max (ResolvedTs (status c)) minResolvedTs,
                                        CheckpointTs := max (CheckpointTs (status c)) minCheckpointTs\<rparr>\<rparr>
      in if minCheckpointTs > CheckpointTs (status c) \<and> ddlState' \<noteq> ChangeFeedWaitToExecDDL
         then (sink_EmitCheckpointTs deps minCheckpointTs, c', [EmitCheckpointTs minCheckpointTs])
         else (None, c', []))"
  unfolding waitForDDL_eq commitTs_eq
  by (simp add: Let_def assms split del: if_split del: dropWhile_eq_Nil_conv cong: if_cong)

section \<open>Frame lemmas\<close>

lemma ddl_frame_refl [simp]: "ddl_frame c c"
  by (simp add: ddl_frame_def)

lemma ddl_frame_trans: "ddl_frame a b \<Longrightarrow> ddl_frame b c \<Longrightarrow> ddl_frame a c"
  by (simp add: ddl_frame_def)

lemma ddl_frame_update [simp]:
  "ddl_frame c (x\<lparr>schema := v1\<rparr>) = ddl_frame c x"
  "ddl_frame c (x\<lparr>targetTs := v2\<rparr>) = ddl_frame c x"
  "ddl_frame c (x\<lparr>taskStatus := v3\<rparr>) = ddl_frame c x"
  "ddl_frame c (x\<lparr>taskPositions := v4\<rparr>) = ddl_frame c x"
  "ddl_frame c (x\<lparr>scheduler := v5\<rparr>) = ddl_frame c x"
  "ddl_frame c (x\<lparr>ddlHandler := v6\<rparr>) = ddl_frame c x"
  "ddl_frame c (x\<lparr>ddlResolvedTs := v7\<rparr>) = ddl_frame c x"
  "ddl_frame c (x\<lparr>schemas := v8\<rparr>) = ddl_frame c x"
  "ddl_frame c (x\<lparr>tables := v9\<rparr>) = ddl_frame c x"
  "ddl_frame c (x\<lparr>partitions := v10\<rparr>) = ddl_frame c x"
  "ddl_frame c (x\<lparr>orphanTables := v11\<rparr>) = ddl_frame c x"
  "ddl_frame c (x\<lparr>toCleanTables := v12\<rparr>) = ddl_frame c x"
  "ddl_frame c (x\<lparr>todoAddOperations := v13\<rparr>) = ddl_frame c x"
  "ddl_frame c (x\<lparr>lastRebanlanceTime := v14\<rparr>) = ddl_frame c x"
  by (simp_all add: ddl_frame_def)

lemma ddl_frame_fold:
  assumes "\<And>a x. ddl_frame c (f a x) = ddl_frame c x"
  shows "ddl_frame c (fold f xs x) = ddl_frame c x"
  by (induction xs arbitrary: x) (simp_all add: assms)

lemma ddl_frame_removeFunc [simp]: "ddl_frame c (removeFunc ts i x) = ddl_frame c x"
  by (simp add: removeFunc_def)

lemma ddl_frame_removeTable [simp]: "ddl_frame c (removeTable sid tid ts x) = ddl_frame c x"
  by (simp add: removeTable_def Let_def ddl_frame_fold split: option.splits)

lemma ddl_frame_addSchema [simp]: "ddl_frame c (addSchema sid x) = ddl_frame c x"
  by (simp add: addSchema_def split: option.splits)

lemma ddl_frame_dropSchema [simp]: "ddl_frame c (dropSchema sid ts x) = ddl_frame c x"
  by (simp add: dropSchema_def Let_def ddl_frame_fold split: option.splits)

lemma ddl_frame_addTable [simp]: "ddl_frame c (addTable deps sid tid ts tn ti x) = ddl_frame c x"
  by (simp add: addTable_def Let_def split: option.splits)

lemma ddl_frame_applyJobSwitch [simp]: "ddl_frame c (snd (applyJobSwitch deps x job)) = ddl_frame c x"
  by (simp add: applyJobSwitch_def Let_def split: ActionType.splits option.splits)

lemma ddl_frame_applyJob [simp]: "ddl_frame c (snd (applyJob deps x job)) = ddl_frame c x"
proof -
  have "ddl_frame c (snd (case applyJobSwitch deps x job of (err, c') \<Rightarrow> ((False, err), c')))
          = ddl_frame c x"
    using ddl_frame_applyJobSwitch [of c deps x job] by (simp add: case_prod_unfold)
  then show ?thesis
    by (simp add: applyJob_def skipIneligible_def split: option.splits)
qed

lemma ddl_frame_updateTaskStatus:
  "updateTaskStatus deps x store news = (e, x', store') \<Longrightarrow> ddl_frame c x' = ddl_frame c x"
proof (induction news arbitrary: x store)
  case Nil
  then show ?case by simp
next
  case (Cons n news)
  obtain cap st where n: "n = (cap, st)" by (cases n)
  from Cons.prems show ?case
    unfolding n
    by (auto split: prod.splits sum.splits dest!: Cons.IH)
qed

lemma ddl_frame_assignOrphans:
  "ddl_frame c (snd (assignOrphans deps x captures nts)) = ddl_frame c x"
  by (simp add: assignOrphans_def Let_def split: prod.splits)

lemma ddl_frame_writeBalance:
  "writeBalance deps x store cleaned assigned = (e, x', store') \<Longrightarrow> ddl_frame c x' = ddl_frame c x"
  unfolding writeBalance_def
  by (auto split: prod.splits option.splits dest!: ddl_frame_updateTaskStatus [where c = c])

lemma ddl_frame_balanceOrphanTables:
  "balanceOrphanTables deps x store captures = (e, x', store') \<Longrightarrow> ddl_frame c x' = ddl_frame c x"
proof -
  assume b: "balanceOrphanTables deps x store captures = (e, x', store')"
  show ?thesis
  proof (cases "length captures = 0 \<or>
                list_ex (\<lambda>(cid, st). SomeOperationsUnapplied st) (taskStatus x)")
    case True
    then have "balanceOrphanTables deps x store captures = (None, x, store)"
      unfolding balanceOrphanTables_def by (cases "length captures = 0") simp_all
    with b have "x' = x" by simp
    then show ?thesis by simp
  next
    case False
    let ?c1 = "x\<lparr>scheduler := scheduler_AlignCapture deps (scheduler x) captures\<rparr>"
    obtain toClean nts0 cleaned where cl:
      "cleanLoop (taskStatus ?c1) (toCleanTables ?c1) (toCleanTables ?c1, [], [])
         = (toClean, nts0, cleaned)"
      by (metis prod_cases3)
    let ?c2 = "?c1\<lparr>toCleanTables := toClean\<rparr>"
    obtain assigned c3 where a: "assignOrphans deps ?c2 captures nts0 = (assigned, c3)"
      by (metis surj_pair)
    from ddl_frame_assignOrphans [of c deps ?c2 captures nts0] a
    have f3: "ddl_frame c c3 = ddl_frame c x" by simp
    from b False cl a have "writeBalance deps c3 store cleaned assigned = (e, x', store')"
      by (simp add: balanceOrphanTables_def Let_def del: cleanLoop.simps)
    from ddl_frame_writeBalance [OF this, of c] f3 show ?thesis by simp
  qed
qed

lemma ddl_frame_rebanlanceTables:
  "rebanlanceTables deps x store captures rn now = (e, x', store') \<Longrightarrow>
   ddl_frame c x' = ddl_frame c x"
  unfolding rebanlanceTables_def Let_def
  by (auto split: prod.splits option.splits if_splits dest!: ddl_frame_updateTaskStatus [where c = c])

lemma ddl_frame_tryBalance:
  "tryBalance deps x store captures rn now = (e, x', store') \<Longrightarrow> ddl_frame c x' = ddl_frame c x"
  unfolding tryBalance_def
  by (auto split: prod.splits option.splits
           dest!: ddl_frame_balanceOrphanTables [where c = c] ddl_frame_rebanlanceTables [where c = c])

section \<open>The paths of handleDDL\<close>

lemma handleDDL_noop:
  assumes "ddlState c = ChangeFeedWaitToExecDDL \<longrightarrow> ddlJobHistory c \<noteq> []"
    and "\<not> (ddlState c = ChangeFeedWaitToExecDDL \<and>
             length (taskStatus c) \<le> length (taskPositions c) \<and>
             CheckpointTs (status c) = FinishedTS (BinlogInfo (hd (ddlJobHistory c))))"
  shows "handleDDL deps c store captures = (None, c, store, [])"
proof (cases "ddlState c = ChangeFeedWaitToExecDDL")
  case False
  then show ?thesis by (simp add: handleDDL_def)
next
  case True
  with assms(1) obtain job rest where h: "ddlJobHistory c = job # rest"
    by (cases "ddlJobHistory c") auto
  from assms(2) True h
  have "length (taskStatus c) > length (taskPositions c) \<or>
        CheckpointTs (status c) \<noteq> FinishedTS (BinlogInfo job)"
    by auto
  with True h show ?thesis by (auto simp: handleDDL_def)
qed

lemma execDDL_outcome:
  assumes "execDDL deps c store captures job = (err, c', store', calls)"
    and "ddlState c = ChangeFeedExecDDL"
    and "EmitDDLEvent j \<in> set calls"
  shows "j = job \<and>
     (sink_EmitDDLEvent deps job = None \<longrightarrow>
        err = None \<and> ddlJobHistory c' = tl (ddlJobHistory c) \<and>
        ddlExecutedTs c' = FinishedTS (BinlogInfo job) \<and> ddlState c' = ChangeFeedSyncDML) \<and>
     (sink_EmitDDLEvent deps job \<noteq> None \<longrightarrow>
        err = Some ErrExecDDLFailed \<and> ddlState c' = ChangeFeedDDLExecuteFailed \<and>
        ddlJobHistory c' = ddlJobHistory c \<and> ddlExecutedTs c' = ddlExecutedTs c)"
proof -
  obtain e c1 s1 where b: "balanceOrphanTables deps c store captures = (e, c1, s1)"
    by (cases "balanceOrphanTables deps c store captures")
  from ddl_frame_balanceOrphanTables [OF b, of c]
  have f: "ddlState c1 = ddlState c" "ddlJobHistory c1 = ddlJobHistory c"
          "ddlExecutedTs c1 = ddlExecutedTs c"
    by (simp_all add: ddl_frame_def)
  show ?thesis
  proof (cases e)
    case (Some x)
    with assms b show ?thesis by (simp add: execDDL_def)
  next
    case None
    show ?thesis
    proof (cases "\<not> cyclicEnabled c1 \<or> cyclicSyncDDL c1")
      case False
      with None assms b f show ?thesis by (auto simp: execDDL_def popJob_def)
    next
      case True
      show ?thesis
      proof (cases "sink_EmitDDLEvent deps job")
        case ok: None
        with True None assms b f show ?thesis by (auto simp: execDDL_def popJob_def)
      next
        case (Some x)
        with True None assms b f show ?thesis by (auto simp: execDDL_def popJob_def)
      qed
    qed
  qed
qed

lemma handleDDL_reaches_execDDL:
  assumes "handleDDL deps c store captures = (err, c', store', calls)"
    and "calls \<noteq> []"
  shows "\<exists>c3 job rest. ddlJobHistory c = job # rest \<and> ddlState c3 = ChangeFeedExecDDL \<and>
           ddlJobHistory c3 = ddlJobHistory c \<and> ddlExecutedTs c3 = ddlExecutedTs c \<and>
           execDDL deps c3 store captures job = (err, c', store', calls)"
proof -
  from assms have w: "ddlState c = ChangeFeedWaitToExecDDL"
    by (auto simp: handleDDL_def split: if_splits)
  from assms w obtain job rest where h: "ddlJobHistory c = job # rest"
    by (cases "ddlJobHistory c") (auto simp: handleDDL_def)
  from assms w h obtain sch' where s: "schema_HandleDDL deps (schema c) job = Inr sch'"
    by (cases "schema_HandleDDL deps (schema c) job") (auto simp: handleDDL_def split: if_splits)
  let ?c2 = "c\<lparr>schema := sch', ddlState := ChangeFeedExecDDL\<rparr>"
  obtain sk e c3 where a: "applyJob deps ?c2 job = ((sk, e), c3)"
    by (cases "applyJob deps ?c2 job") auto
  from ddl_frame_applyJob [of ?c2 deps ?c2 job] a
  have f: "ddl_frame ?c2 c3" by simp
  from assms w h s a have "execDDL deps c3 store captures job = (err, c', store', calls)"
    by (auto simp: handleDDL_def Let_def split: if_splits option.splits bool.splits)
  with f h show ?thesis by (auto simp: ddl_frame_def)
qed

section \<open>The stored status along a run\<close>

lemma commitTs_status:
  "status (fst (snd (commitTs deps c r k))) =
     (status c)\<lparr>ResolvedTs := max (ResolvedTs (status c)) r,
                CheckpointTs := max (CheckpointTs (status c)) (min k r)\<rparr>"
  unfolding commitTs_eq by (simp add: Let_def)

lemma waitForDDL_status: "status (fst (waitForDDL c r)) = status c"
  unfolding waitForDDL_eq by (simp add: Let_def)

lemma pullAndClamp_status: "status (fst (snd (pullAndClamp deps c r))) = status c"
  unfolding pullAndClamp_min by (simp add: pullDDLJob_frame)

lemma pullAndClamp_None: "fst (pullAndClamp deps c r) = None"
  unfolding pullAndClamp_min by simp

lemma calcResolvedTs_status:
  "status (fst (snd (calcResolvedTs deps c))) = status c \<or>
   (\<exists>r k. status (fst (snd (calcResolvedTs deps c))) =
            (status c)\<lparr>ResolvedTs := max (ResolvedTs (status c)) r,
                       CheckpointTs := max (CheckpointTs (status c)) (min k r)\<rparr>)"
proof (cases "(ddlState c \<noteq> ChangeFeedSyncDML \<and> ddlState c \<noteq> ChangeFeedWaitToExecDDL) \<or>
              length (taskPositions c) < length (taskStatus c)")
  case True
  then have "calcResolvedTs deps c = (None, c, [])"
    by (auto simp: calcResolvedTs_def)
  then show ?thesis by simp
next
  case False
  obtain r0 k0 where m: "minOverTables (toCleanTables c)
     (minOverTables (orphanTables c)
        (minOverTaskStatus (taskStatus c)
           (if length (taskPositions c) = 0
            then (targetTs c, ResolvedTs (status c))
            else minOverPositions (taskPositions c) (targetTs c, targetTs c)))) = (r0, k0)"
    by (cases "minOverTables (toCleanTables c)
     (minOverTables (orphanTables c)
        (minOverTaskStatus (taskStatus c)
           (if length (taskPositions c) = 0
            then (targetTs c, ResolvedTs (status c))
            else minOverPositions (taskPositions c) (targetTs c, targetTs c))))")
  obtain e1 c1 r1 where p: "pullAndClamp deps c r0 = (e1, c1, r1)"
    by (cases "pullAndClamp deps c r0")
  from pullAndClamp_None [of deps c r0] pullAndClamp_status [of deps c r0] p
  have e1: "e1 = None" and s1: "status c1 = status c" by simp_all
  obtain c2 r2 where w: "waitForDDL c1 r1 = (c2, r2)" by (cases "waitForDDL c1 r1")
  from waitForDDL_status [of c1 r1] w s1 have s2: "status c2 = status c" by simp
  from False m p e1 w have "calcResolvedTs deps c = commitTs deps c2 r2 k0"
    by (auto simp: calcResolvedTs_def Let_def)
  with commitTs_status [of deps c2 r2 k0] s2 show ?thesis by auto
qed

lemma status_step:
  fixes s s' :: ChangeFeedStatus
  assumes "s' = s \<or> (\<exists>r k. s' = s\<lparr>ResolvedTs := max (ResolvedTs s) r,
                                     CheckpointTs := max (CheckpointTs s) (min k r)\<rparr>)"
  shows "ResolvedTs s \<le> ResolvedTs s' \<and> CheckpointTs s \<le> CheckpointTs s' \<and>
         (CheckpointTs s \<le> ResolvedTs s \<longrightarrow> CheckpointTs s' \<le> ResolvedTs s')"
  using assms by (auto simp: max_def min_def)

lemma status_handleDDL:
  assumes "handleDDL deps c store captures = (err, c', store', calls)"
  shows "status c' = status c"
proof (cases "handleDDL deps c store captures = (None, c, store, [])")
  case True
  with assms show ?thesis by simp
next
  case False
  then have w: "ddlState c = ChangeFeedWaitToExecDDL"
    by (auto simp: handleDDL_def split: if_splits)
  show ?thesis
  proof (cases "ddlJobHistory c")
    case Nil
    with assms w show ?thesis by (simp add: handleDDL_def)
  next
    case (Cons job rest)
    show ?thesis
    proof (cases "schema_HandleDDL deps (schema c) job")
      case (Inl e)
      with assms w Cons show ?thesis by (auto simp: handleDDL_def split: if_splits)
    next
      case (Inr sch')
      let ?c2 = "c\<lparr>schema := sch', ddlState := ChangeFeedExecDDL\<rparr>"
      obtain sk e c3 where a: "applyJob deps ?c2 job = ((sk, e), c3)"
        by (cases "applyJob deps ?c2 job") auto
      from ddl_frame_applyJob [of ?c2 deps ?c2 job] a
      have f3: "status c3 = status c" by (simp add: ddl_frame_def)
      obtain e4 c4 s4 where b: "balanceOrphanTables deps c3 store captures = (e4, c4, s4)"
        by (cases "balanceOrphanTables deps c3 store captures")
      from ddl_frame_balanceOrphanTables [OF b, of c3] f3
      have f4: "status c4 = status c" by (simp add: ddl_frame_def)
      from assms w Cons Inr a b f3 f4 show ?thesis
        by (auto simp: handleDDL_def execDDL_def popJob_def Let_def
                 split: if_splits option.splits bool.splits)
    qed
  qed
qed

lemma ownerStep_status:
  assumes "ownerStep deps (c, store) step = (c', store')"
  shows "status c' = status c \<or>
         (\<exists>r k. status c' = (status c)\<lparr>ResolvedTs := max (ResolvedTs (status c)) r,
                                        CheckpointTs := max (CheckpointTs (status c)) (min k r)\<rparr>)"
proof (cases step)
  case (StepUpdateProcessorInfos x11 x12)
  with assms show ?thesis by (auto simp: ownerStep_def updateProcessorInfos_def)
next
  case (StepTryBalance captures rn now)
  obtain e c1 s1 where t: "tryBalance deps c store captures rn now = (e, c1, s1)"
    by (cases "tryBalance deps c store captures rn now")
  from ddl_frame_tryBalance [OF t, of c] have "status c1 = status c"
    by (simp add: ddl_frame_def)
  with assms StepTryBalance t show ?thesis by (auto simp: ownerStep_def)
next
  case (StepHandleDDL captures)
  obtain e c1 s1 calls where h: "handleDDL deps c store captures = (e, c1, s1, calls)"
    by (cases "handleDDL deps c store captures")
  from status_handleDDL [OF h] assms StepHandleDDL h show ?thesis
    by (auto simp: ownerStep_def)
next
  case StepCalcResolvedTs
  obtain e c1 calls where k: "calcResolvedTs deps c = (e, c1, calls)"
    by (cases "calcResolvedTs deps c")
  with assms StepCalcResolvedTs have "c' = c1" by (simp add: ownerStep_def)
  with calcResolvedTs_status [of deps c] k show ?thesis by simp
next
  case (StepReceiveDDL x5)
  with assms show ?thesis by (auto simp: ownerStep_def)
next
  case (StepStoreWrite x61 x62)
  with assms show ?thesis by (auto simp: ownerStep_def)
qed

lemma ownerRun_status:
  "ownerRun deps (c, store) steps = (c', store') \<Longrightarrow>
   ResolvedTs (status c) \<le> ResolvedTs (status c') \<and>
   CheckpointTs (status c) \<le> CheckpointTs (status c') \<and>
   (CheckpointTs (status c) \<le> ResolvedTs (status c) \<longrightarrow>
      CheckpointTs (status c') \<le> ResolvedTs (status c'))"
proof (induction steps arbitrary: c store)
  case Nil
  then show ?case by (simp add: ownerRun_def)
next
  case (Cons step steps)
  obtain c1 s1 where o: "ownerStep deps (c, store) step = (c1, s1)"
    by (cases "ownerStep deps (c, store) step")
  with Cons.prems have "ownerRun deps (c1, s1) steps = (c', store')"
    by (simp add: ownerRun_def)
  from Cons.IH [OF this] status_step [OF ownerStep_status [OF o]]
  show ?case by auto
qed

section \<open>What Forward sends and what it keeps\<close>

lemma forwardEnd_simps:
  "forwardEnd p out [] =
     (if outputClosed p then Returned (p\<lparr>outputTxn := [], putBackTxn := None\<rparr>) out
      else Blocked (p\<lparr>outputTxn := [], putBackTxn := None\<rparr>) out)"
  "forwardEnd p out (t # rest) = Returned (p\<lparr>outputTxn := rest, putBackTxn := Some t\<rparr>) out"
  by (simp_all add: forwardEnd_def)

lemma NewProcessorDMLsEntry_dmlEntry:
  "NewProcessorDMLsEntry (Entries t) (TS t) = dmlEntry t"
  by (simp add: dmlEntry_def NewProcessorDMLsEntry_def)

lemma forwardLoop_eq:
  "putBackTxn p = None \<Longrightarrow>
   forwardLoop ts p xs acc =
     forwardEnd p (rev acc @ map dmlEntry (takeWhile (\<lambda>t. TS t \<le> ts) xs))
       (dropWhile (\<lambda>t. TS t \<le> ts) xs)"
proof (induction xs arbitrary: acc)
  case Nil
  then have "p\<lparr>outputTxn := [], putBackTxn := None\<rparr> = p\<lparr>outputTxn := []\<rparr>"
    by (cases p) simp
  then show ?case by (simp add: forwardEnd_simps)
next
  case (Cons x xs)
  show ?case
  proof (cases "TS x > ts")
    case True
    then have "\<not> TS x \<le> ts" by simp
    with True Cons.prems show ?thesis by (simp add: PutBack_def forwardEnd_simps)
  next
    case False
    then have le: "TS x \<le> ts" by simp
    from Cons.IH [OF Cons.prems, of "NewProcessorDMLsEntry (Entries x) (TS x) # acc"] le False
    show ?thesis by (simp add: NewProcessorDMLsEntry_dmlEntry)
  qed
qed

lemma forwardEnd_putBack_irrelevant:
  "forwardEnd (p\<lparr>putBackTxn := v\<rparr>) out kept = forwardEnd p out kept"
  by (cases kept) (simp_all add: forwardEnd_simps)

lemma Forward_eq:
  "Forward p ts =
     forwardEnd p (map dmlEntry (takeWhile (\<lambda>t. TS t \<le> ts) (pending p)))
       (dropWhile (\<lambda>t. TS t \<le> ts) (pending p))"
proof (cases "putBackTxn p")
  case None
  then show ?thesis
    by (simp add: Forward_def pending_def forwardLoop_eq)
next
  case (Some t)
  then have pp: "pending p = t # outputTxn p"
    by (simp add: pending_def)
  show ?thesis
  proof (cases "TS t > ts")
    case True
    then have nle: "\<not> TS t \<le> ts" by simp
    from Some have r: "p\<lparr>outputTxn := outputTxn p, putBackTxn := Some t\<rparr> = p"
      by (cases p) simp
    from Some True nle r show ?thesis
      by (simp add: Forward_def pp forwardEnd_simps)
  next
    case False
    then have le: "TS t \<le> ts" by simp
    have n: "putBackTxn (p\<lparr>putBackTxn := None\<rparr>) = None" by simp
    from Some False le show ?thesis
      by (simp add: Forward_def pp forwardLoop_eq [OF n] forwardEnd_putBack_irrelevant
          NewProcessorDMLsEntry_dmlEntry)
  qed
qed

lemma returned_Forward: "returned (Forward p ts) \<longleftrightarrow> delivers p ts"
proof -
  have "dropWhile (\<lambda>t. TS t \<le> ts) (pending p) \<noteq> [] \<longleftrightarrow> list_ex (\<lambda>t. TS t > ts) (pending p)"
    by (auto simp: list_ex_iff not_le)
  then show ?thesis
    unfolding Forward_eq delivers_def
    by (cases "dropWhile (\<lambda>t. TS t \<le> ts) (pending p)")
       (simp_all add: forwardEnd_simps del: dropWhile_eq_Nil_conv)
qed

lemma sent_Forward:
  "sent (Forward p ts) = map dmlEntry (takeWhile (\<lambda>t. TS t \<le> ts) (pending p))"
  unfolding Forward_eq
  by (cases "dropWhile (\<lambda>t. TS t \<le> ts) (pending p)")
     (simp_all add: forwardEnd_simps del: dropWhile_eq_Nil_conv)

lemma pending_Forward:
  "pending (channelAfter (Forward p ts)) = dropWhile (\<lambda>t. TS t \<le> ts) (pending p)"
  unfolding Forward_eq
  by (cases "dropWhile (\<lambda>t. TS t \<le> ts) (pending p)")
     (simp_all add: pending_def forwardEnd_simps del: dropWhile_eq_Nil_conv)

lemma putBack_Forward:
  "putBackTxn (channelAfter (Forward p ts)) =
     (case dropWhile (\<lambda>t. TS t \<le> ts) (pending p) of [] \<Rightarrow> None | t # rest \<Rightarrow> Some t)"
  unfolding Forward_eq
  by (cases "dropWhile (\<lambda>t. TS t \<le> ts) (pending p)")
     (simp_all add: forwardEnd_simps del: dropWhile_eq_Nil_conv)

lemma sorted_takeWhile_filter:
  "sorted (map TS xs) \<Longrightarrow>
   takeWhile (\<lambda>t. TS t \<le> ts) xs = filter (\<lambda>t. TS t \<le> ts) xs \<and>
   dropWhile (\<lambda>t. TS t \<le> ts) xs = filter (\<lambda>t. TS t > ts) xs"
proof (induction xs)
  case Nil
  then show ?case by simp
next
  case (Cons x xs)
  show ?case
  proof (cases "TS x \<le> ts")
    case True
    with Cons show ?thesis by (auto simp: not_less)
  next
    case False
    with Cons.prems have "\<forall>y \<in> set xs. \<not> TS y \<le> ts"
      by auto
    then have "filter (\<lambda>t. TS t \<le> ts) xs = []" "filter (\<lambda>t. TS t > ts) xs = xs"
      by (auto simp: filter_empty_conv filter_id_conv not_le)
    with False show ?thesis by auto
  qed
qed

lemma mset_concat_update:
  "i < length xss \<Longrightarrow> xss ! i = x # xs \<Longrightarrow>
   mset (concat xss) = add_mset x (mset (concat (xss[i := xs])))"
proof (induction xss arbitrary: i)
  case Nil
  then show ?case by simp
next
  case (Cons ys xss)
  then show ?case by (cases i) simp_all
qed

lemma mset_mergeBy: "mset (mergeBy sched xss) = mset (concat xss)"
proof (induction sched arbitrary: xss)
  case Nil
  show ?case by simp
next
  case (Cons i sched)
  show ?case
  proof (cases "i < length xss")
    case False
    with Cons.IH [of xss] show ?thesis by simp
  next
    case True
    show ?thesis
    proof (cases "xss ! i")
      case Nil
      with True Cons.IH [of xss] show ?thesis by simp
    next
      case (Cons x xs)
      with True Cons.IH [of "xss[i := xs]"] mset_concat_update [OF True Cons]
      show ?thesis by simp
    qed
  qed
qed

lemma results_returned:
  "list_all (\<lambda>(table, r). returned r)
     (map (\<lambda>(table, input). (table, Forward input g)) chans)
   \<longleftrightarrow> list_all (\<lambda>(table, input). delivers input g) chans"
  by (induction chans) (auto simp: returned_Forward)

lemma results_sent:
  "map (\<lambda>(table, r). sent r) (map (\<lambda>(table, input). (table, Forward input g)) chans)
     = map (\<lambda>(table, input). sent (Forward input g)) chans"
  by (induction chans) auto

lemma results_after:
  "map (\<lambda>(table, r). (table, channelAfter r)) (map (\<lambda>(table, input). (table, Forward input g)) chans)
     = map (\<lambda>(table, input). (table, channelAfter (Forward input g))) chans"
  by (induction chans) auto

lemma results_comp:
  "((\<lambda>(table, r). sent r) \<circ> (\<lambda>(table, input). (table, Forward input g)))
     = (\<lambda>(table, input). sent (Forward input g))"
  "((\<lambda>(table, r). (table, channelAfter r)) \<circ> (\<lambda>(table, input). (table, Forward input g)))
     = (\<lambda>(table, input). (table, channelAfter (Forward input g)))"
  by (auto simp: fun_eq_iff)

lemma round_eq:
  assumes "lastGlobalResolvedTS s \<noteq> g"
  shows "globalResolvedWorker_round sched False (Inr g) s =
     (if list_all (\<lambda>(table, input). delivers input g) (tableInputChans s)
      then (Continue,
            s\<lparr>lastGlobalResolvedTS := g,
              tableInputChans :=
                map (\<lambda>(table, input). (table, channelAfter (Forward input g))) (tableInputChans s),
              resolvedEntries :=
                resolvedEntries s @
                mergeBy sched (map (\<lambda>(table, input). sent (Forward input g)) (tableInputChans s)) @
                [NewProcessorResolvedEntry g]\<rparr>)
      else (WaitForever,
            s\<lparr>lastGlobalResolvedTS := g,
              tableInputChans :=
                map (\<lambda>(table, input). (table, channelAfter (Forward input g))) (tableInputChans s),
              resolvedEntries :=
                resolvedEntries s @
                mergeBy sched (map (\<lambda>(table, input). sent (Forward input g)) (tableInputChans s))\<rparr>))"
  using assms
  by (simp add: globalResolvedWorker_round_def Let_def results_returned results_comp)

lemma body_entries:
  assumes "e \<in> set (mergeBy sched (map (\<lambda>(table, input). sent (Forward input g)) chans))"
  shows "\<exists>(table, input) \<in> set chans. \<exists>t \<in> set (pending input). TS t \<le> g \<and> e = dmlEntry t"
proof -
  from assms have "e \<in># mset (mergeBy sched (map (\<lambda>(table, input). sent (Forward input g)) chans))"
    by simp
  then have "e \<in> set (concat (map (\<lambda>(table, input). sent (Forward input g)) chans))"
    unfolding mset_mergeBy by simp
  then obtain table input t where c: "(table, input) \<in> set chans"
    and t: "t \<in> set (takeWhile (\<lambda>t. TS t \<le> g) (pending input))" and e: "e = dmlEntry t"
    by (auto simp: sent_Forward)
  from t have "TS t \<le> g" "t \<in> set (pending input)"
    by (auto dest: set_takeWhileD)
  with c e show ?thesis
    by blast
qed

section \<open>A waiting changefeed has a job to execute\<close>

lemma wait_inv_frame: "ddl_frame c c' \<Longrightarrow> wait_inv c \<Longrightarrow> wait_inv c'"
  by (simp add: ddl_frame_def wait_inv_def)

lemma wait_inv_pullDDLJob: "wait_inv c \<Longrightarrow> wait_inv (snd (pullDDLJob deps c))"
  by (auto simp: wait_inv_def pullDDLJob_def PullDDL_def)

lemma wait_inv_waitForDDL:
  assumes "wait_inv c"
  shows "wait_inv (fst (waitForDDL c r))"
proof -
  let ?P = "\<lambda>job. FinishedTS (BinlogInfo job) \<le> ddlExecutedTs c"
  let ?h = "dropWhile ?P (ddlJobHistory c)"
  have hd: "?h \<noteq> [] \<Longrightarrow> ddlExecutedTs c < FinishedTS (BinlogInfo (hd ?h))"
    using hd_dropWhile [of ?P "ddlJobHistory c"] by (simp add: not_le)
  have keep: "ddlState c = ChangeFeedWaitToExecDDL \<Longrightarrow> ?h = ddlJobHistory c"
    using assms by (cases "ddlJobHistory c") (auto simp: wait_inv_def)
  show ?thesis
    unfolding waitForDDL_eq Let_def wait_inv_def
    using hd keep assms by (auto simp: wait_inv_def simp del: dropWhile_eq_Nil_conv)
qed

lemma wait_inv_commitTs: "wait_inv c \<Longrightarrow> wait_inv (fst (snd (commitTs deps c r k)))"
  unfolding commitTs_eq by (simp add: Let_def wait_inv_def)

lemma wait_inv_calcResolvedTs:
  assumes "wait_inv c"
  shows "wait_inv (fst (snd (calcResolvedTs deps c)))"
proof (cases "(ddlState c \<noteq> ChangeFeedSyncDML \<and> ddlState c \<noteq> ChangeFeedWaitToExecDDL) \<or>
              length (taskPositions c) < length (taskStatus c)")
  case True
  then have "calcResolvedTs deps c = (None, c, [])"
    by (auto simp: calcResolvedTs_def)
  with assms show ?thesis by simp
next
  case False
  obtain r0 k0 where m: "minOverTables (toCleanTables c)
     (minOverTables (orphanTables c)
        (minOverTaskStatus (taskStatus c)
           (if length (taskPositions c) = 0
            then (targetTs c, ResolvedTs (status c))
            else minOverPositions (taskPositions c) (targetTs c, targetTs c)))) = (r0, k0)"
    by (cases "minOverTables (toCleanTables c)
     (minOverTables (orphanTables c)
        (minOverTaskStatus (taskStatus c)
           (if length (taskPositions c) = 0
            then (targetTs c, ResolvedTs (status c))
            else minOverPositions (taskPositions c) (targetTs c, targetTs c))))")
  obtain e1 c1 r1 where p: "pullAndClamp deps c r0 = (e1, c1, r1)"
    by (cases "pullAndClamp deps c r0")
  from pullAndClamp_None [of deps c r0] p have e1: "e1 = None" by simp
  from p have "c1 = (if r0 > ddlResolvedTs c then snd (pullDDLJob deps c) else c)"
    unfolding pullAndClamp_min by simp
  with assms have i1: "wait_inv c1" by (simp add: wait_inv_pullDDLJob)
  obtain c2 r2 where w: "waitForDDL c1 r1 = (c2, r2)" by (cases "waitForDDL c1 r1")
  from wait_inv_waitForDDL [OF i1, of r1] w have i2: "wait_inv c2" by simp
  from False m p e1 w have "calcResolvedTs deps c = commitTs deps c2 r2 k0"
    by (auto simp: calcResolvedTs_def Let_def)
  with wait_inv_commitTs [OF i2, of deps r2 k0] show ?thesis by simp
qed

lemma wait_inv_handleDDL:
  assumes "handleDDL deps c store captures = (err, c', store', calls)" and "wait_inv c"
  shows "wait_inv c'"
proof (cases "handleDDL deps c store captures = (None, c, store, [])")
  case True
  with assms show ?thesis by simp
next
  case False
  then have w: "ddlState c = ChangeFeedWaitToExecDDL"
    by (auto simp: handleDDL_def split: if_splits)
  show ?thesis
  proof (cases "ddlJobHistory c")
    case Nil
    with assms w show ?thesis by (simp add: handleDDL_def)
  next
    case (Cons job rest)
    show ?thesis
    proof (cases "schema_HandleDDL deps (schema c) job")
      case (Inl e)
      with assms w Cons show ?thesis by (auto simp: handleDDL_def split: if_splits)
    next
      case (Inr sch')
      let ?c2 = "c\<lparr>schema := sch', ddlState := ChangeFeedExecDDL\<rparr>"
      obtain sk e c3 where a: "applyJob deps ?c2 job = ((sk, e), c3)"
        by (cases "applyJob deps ?c2 job") auto
      from ddl_frame_applyJob [of ?c2 deps ?c2 job] a
      have f3: "ddlState c3 = ChangeFeedExecDDL" by (simp add: ddl_frame_def)
      obtain e4 c4 s4 where b: "balanceOrphanTables deps c3 store captures = (e4, c4, s4)"
        by (cases "balanceOrphanTables deps c3 store captures")
      from ddl_frame_balanceOrphanTables [OF b, of c3] f3
      have f4: "ddlState c4 = ChangeFeedExecDDL" by (simp add: ddl_frame_def)
      from assms w Cons Inr a b f3 f4 show ?thesis
        by (auto simp: handleDDL_def execDDL_def popJob_def Let_def wait_inv_def
                 split: if_splits option.splits bool.splits)
    qed
  qed
qed

lemma wait_inv_ownerStep:
  assumes "ownerStep deps (c, store) step = (c', store')" and "wait_inv c"
  shows "wait_inv c'"
proof (cases step)
  case (StepUpdateProcessorInfos x11 x12)
  with assms show ?thesis by (auto simp: ownerStep_def updateProcessorInfos_def wait_inv_def)
next
  case (StepTryBalance captures rn now)
  obtain e c1 s1 where t: "tryBalance deps c store captures rn now = (e, c1, s1)"
    by (cases "tryBalance deps c store captures rn now")
  from ddl_frame_tryBalance [OF t, of c] have "ddl_frame c c1" by simp
  from wait_inv_frame [OF this assms(2)] assms(1) StepTryBalance t show ?thesis
    by (auto simp: ownerStep_def)
next
  case (StepHandleDDL captures)
  obtain e c1 s1 calls where h: "handleDDL deps c store captures = (e, c1, s1, calls)"
    by (cases "handleDDL deps c store captures")
  from wait_inv_handleDDL [OF h assms(2)] assms(1) StepHandleDDL h show ?thesis
    by (auto simp: ownerStep_def)
next
  case StepCalcResolvedTs
  obtain e c1 calls where k: "calcResolvedTs deps c = (e, c1, calls)"
    by (cases "calcResolvedTs deps c")
  with assms StepCalcResolvedTs have "c' = c1" by (simp add: ownerStep_def)
  with wait_inv_calcResolvedTs [OF assms(2), of deps] k show ?thesis by simp
next
  case (StepReceiveDDL x5)
  with assms show ?thesis by (auto simp: ownerStep_def wait_inv_def)
next
  case (StepStoreWrite x61 x62)
  with assms show ?thesis by (auto simp: ownerStep_def)
qed

lemma wait_inv_ownerRun:
  "ownerRun deps (c, store) steps = (c', store') \<Longrightarrow> wait_inv c \<Longrightarrow> wait_inv c'"
proof (induction steps arbitrary: c store)
  case Nil
  then show ?case by (simp add: ownerRun_def)
next
  case (Cons step steps)
  obtain c1 s1 where o: "ownerStep deps (c, store) step = (c1, s1)"
    by (cases "ownerStep deps (c, store) step")
  with Cons.prems have "ownerRun deps (c1, s1) steps = (c', store')"
    by (simp add: ownerRun_def)
  from Cons.IH [OF this wait_inv_ownerStep [OF o Cons.prems(2)]]
  show ?case .
qed

section \<open>A failed write keeps the writes before it\<close>

lemma TaskStatus_overwrite:
  "(s :: TaskStatus)\<lparr>Tables := Tables st, Operation := Operation st\<rparr> = st"
  by (cases s, cases st) simp

lemma AtomicPut_cases:
  "(\<exists>e. AtomicPutTaskStatus deps store cap (statusUpdate st) = (Inl e, store)) \<or>
   AtomicPutTaskStatus deps store cap (statusUpdate st) = (Inr st, AList.update cap st store)"
  by (auto simp: AtomicPutTaskStatus_def statusUpdate_def TaskStatus_overwrite Let_def
           split: option.splits)

lemma updateTaskStatus_error:
  "updateTaskStatus deps c store news = (Some err, c', store') \<Longrightarrow>
   \<exists>written cap st rest.
      news = written @ (cap, st) # rest \<and>
      store' = storeAfter written store \<and>
      AtomicPutTaskStatus deps store' cap (statusUpdate st) = (Inl err, store')"
proof (induction news arbitrary: c store)
  case Nil
  then show ?case by simp
next
  case (Cons n news)
  obtain cap st where n: "n = (cap, st)" by (cases n)
  from AtomicPut_cases [of deps store cap st]
  show ?case
  proof
    assume "\<exists>e. AtomicPutTaskStatus deps store cap (statusUpdate st) = (Inl e, store)"
    then obtain e where e: "AtomicPutTaskStatus deps store cap (statusUpdate st) = (Inl e, store)"
      by blast
    with Cons.prems n have "err = e" "store' = store"
      by simp_all
    with e n have "n # news = [] @ (cap, st) # news \<and> store' = storeAfter [] store \<and>
                   AtomicPutTaskStatus deps store' cap (statusUpdate st) = (Inl err, store')"
      by (simp add: storeAfter_def)
    then show ?thesis by blast
  next
    assume ok: "AtomicPutTaskStatus deps store cap (statusUpdate st)
                  = (Inr st, AList.update cap st store)"
    with Cons.prems n
    have "updateTaskStatus deps (c\<lparr>taskStatus := AList.update cap st (taskStatus c)\<rparr>)
            (AList.update cap st store) news = (Some err, c', store')"
      by simp
    from Cons.IH [OF this]
    obtain written cap' st' rest where
      w: "news = written @ (cap', st') # rest"
         "store' = storeAfter written (AList.update cap st store)"
         "AtomicPutTaskStatus deps store' cap' (statusUpdate st') = (Inl err, store')"
      by blast
    from w n have "n # news = ((cap, st) # written) @ (cap', st') # rest \<and>
                   store' = storeAfter ((cap, st) # written) store \<and>
                   AtomicPutTaskStatus deps store' cap' (statusUpdate st') = (Inl err, store')"
      by (simp add: storeAfter_def)
    then show ?thesis by blast
  qed
qed

lemma updateTaskStatus_only_taskStatus:
  "updateTaskStatus deps x store news = (e, x', store') \<Longrightarrow> x' = x\<lparr>taskStatus := taskStatus x'\<rparr>"
proof (induction news arbitrary: x store)
  case Nil
  then show ?case by simp
next
  case (Cons n news)
  obtain cap st where n: "n = (cap, st)" by (cases n)
  from AtomicPut_cases [of deps store cap st]
  show ?case
  proof
    assume "\<exists>e. AtomicPutTaskStatus deps store cap (statusUpdate st) = (Inl e, store)"
    with Cons.prems n show ?thesis by auto
  next
    assume ok: "AtomicPutTaskStatus deps store cap (statusUpdate st)
                  = (Inr st, AList.update cap st store)"
    with Cons.prems n
    have "updateTaskStatus deps (x\<lparr>taskStatus := AList.update cap st (taskStatus x)\<rparr>)
            (AList.update cap st store) news = (e, x', store')"
      by simp
    from Cons.IH [OF this] have "x' = x\<lparr>taskStatus := taskStatus x'\<rparr>"
      by simp
    then show ?thesis .
  qed
qed

lemma orphanTables_assignOrphans:
  "orphanTables (snd (assignOrphans deps x captures nts)) = orphanTables x"
  by (simp add: assignOrphans_def Let_def split: prod.splits)

lemma writeBalance_error:
  assumes "writeBalance deps x store cleaned assigned = (Some err, x', store')"
  shows "\<exists>news. updateTaskStatus deps x store news = (Some err, x', store')"
proof (cases assigned)
  case None
  with assms show ?thesis by (simp add: writeBalance_def)
next
  case (Some p)
  obtain news added where p: "p = (news, added)" by (cases p)
  obtain e x1 s1 where u: "updateTaskStatus deps x store news = (e, x1, s1)"
    by (metis prod_cases3)
  from assms Some p u have "e = Some err \<and> x1 = x' \<and> s1 = store'"
    by (cases e) (simp_all add: writeBalance_def)
  with u show ?thesis by blast
qed

lemma balanceOrphanTables_error:
  assumes "balanceOrphanTables deps c store captures = (Some err, c', store')"
  shows "orphanTables c' = orphanTables c \<and>
         (\<exists>c3 news. updateTaskStatus deps c3 store news = (Some err, c', store'))"
proof (cases "length captures = 0 \<or>
              list_ex (\<lambda>(cid, st). SomeOperationsUnapplied st) (taskStatus c)")
  case True
  then have "balanceOrphanTables deps c store captures = (None, c, store)"
    unfolding balanceOrphanTables_def by (cases "length captures = 0") simp_all
  with assms show ?thesis by simp
next
  case False
  let ?c1 = "c\<lparr>scheduler := scheduler_AlignCapture deps (scheduler c) captures\<rparr>"
  obtain toClean nts0 cleaned where cl:
    "cleanLoop (taskStatus ?c1) (toCleanTables ?c1) (toCleanTables ?c1, [], [])
       = (toClean, nts0, cleaned)"
    by (metis prod_cases3)
  let ?c2 = "?c1\<lparr>toCleanTables := toClean\<rparr>"
  obtain assigned c3 where a: "assignOrphans deps ?c2 captures nts0 = (assigned, c3)"
    by (metis surj_pair)
  from orphanTables_assignOrphans [of deps ?c2 captures nts0] a
  have o3: "orphanTables c3 = orphanTables c" by simp
  from assms False cl a have w: "writeBalance deps c3 store cleaned assigned = (Some err, c', store')"
    by (simp add: balanceOrphanTables_def Let_def del: cleanLoop.simps)
  from writeBalance_error [OF w] obtain news where
    u: "updateTaskStatus deps c3 store news = (Some err, c', store')"
    by blast
  from updateTaskStatus_only_taskStatus [OF u] have "c' = c3\<lparr>taskStatus := taskStatus c'\<rparr>" .
  then have "orphanTables c' = orphanTables (c3\<lparr>taskStatus := taskStatus c'\<rparr>)"
    by simp
  then have "orphanTables c' = orphanTables c3"
    by simp
  with o3 u show ?thesis by auto
qed

subsection \<open>Round trips of the encoding buffers\<close>

lemma BigEndian_Uint32_Put: "BigEndian_Uint32 (PutUint32 x @ rest) = x"
  unfolding PutUint32_def
  apply simp
  apply (rule bit_word_eqI)
  subgoal for n
    by (cases "n < 8"; cases "n < 16"; cases "n < 24") (auto simp add: bit_simps not_less)
  done

lemma BigEndian_Uint64_Put: "BigEndian_Uint64 (PutUint64 x @ rest) = x"
  unfolding PutUint64_def
  apply simp
  apply (rule bit_word_eqI)
  subgoal for n
    by (cases "n < 8"; cases "n < 16"; cases "n < 24"; cases "n < 32"; cases "n < 40";
        cases "n < 48"; cases "n < 56") (auto simp add: bit_simps not_less)
  done

lemma length_PutUint32 [simp]: "length (PutUint32 x) = 4"
  by (simp add: PutUint32_def)

lemma length_PutUint64 [simp]: "length (PutUint64 x) = 8"
  by (simp add: PutUint64_def)

lemma small_bits:
  assumes "(v :: 'a::len word) < 2 ^ k" "bit v n" shows "n < k"
proof -
  from assms(1) have "v AND mask k = v" by (rule less_mask_eq)
  then have "take_bit k v = v" by (simp only: take_bit_eq_mask)
  with assms(2) have "bit (take_bit k v) n" by (simp only:)
  then show ?thesis by (simp only: bit_take_bit_iff)
qed

lemma bit_128: "bit (128 :: 'a::semiring_bits) n \<longleftrightarrow> possible_bit TYPE('a) n \<and> n = 7"
proof -
  have "(128 :: 'a) = 2 ^ 7" by simp
  then show ?thesis by (simp only: bit_exp_iff)
qed

lemma low7_ucast:
  assumes "v < 0x80" shows "(ucast (ucast (v :: 64 word) :: byte) :: 64 word) = v"
proof (rule bit_word_eqI)
  fix n assume "n < LENGTH(64)"
  from assms have "v < 2 ^ 7" by simp
  from small_bits [OF this] have "bit v n \<Longrightarrow> n < 7" .
  then show "bit (ucast (ucast v :: byte) :: 64 word) n = bit v n" by (auto simp: bit_simps)
qed

lemma low7_less: "(v :: 64 word) < 0x80 \<Longrightarrow> (ucast v :: byte) < 0x80"
  by (simp add: word_less_nat_alt unsigned_ucast_eq take_bit_eq_mod)

lemma high_bit_set: "\<not> (ucast (v :: 64 word) OR 0x80 :: byte) < 0x80"
proof
  assume "(ucast v OR 0x80 :: byte) < 0x80"
  then have "(ucast v OR 0x80 :: byte) < 2 ^ 7" by simp
  from small_bits [OF this, of 7] show False by (simp add: bit_simps bit_128)
qed

lemma low7_take: "(ucast ((ucast (v :: 64 word) OR 0x80 :: byte) AND 0x7f) :: 64 word) = take_bit 7 v"
proof -
  have m: "(0x7f :: byte) = mask 7" by (simp add: mask_eq_exp_minus_1)
  show ?thesis unfolding m
    by (intro bit_word_eqI) (auto simp: bit_simps bit_128)
qed

lemma push_split:
  "push_bit s (take_bit 7 v) OR push_bit (s + 7) (drop_bit 7 v) = push_bit s (v :: 64 word)"
  apply (intro bit_word_eqI)
  subgoal for n
    by (cases "n - s < 7") (auto simp: bit_simps)
  done

lemma tenth_byte: "unat (v :: 64 word) < 2 \<Longrightarrow> \<not> (ucast v :: byte) > 1"
  by (simp add: word_less_nat_alt unsigned_ucast_eq take_bit_eq_mod)

lemma Uvarint_loop_Put:
  "i \<le> 9 \<Longrightarrow> s = 7 * i \<Longrightarrow> unat v < 2 ^ (64 - s) \<Longrightarrow>
   Uvarint_loop i acc s (PutUvarint v @ rest)
     = (acc OR push_bit s v, int i + int (length (PutUvarint v)))"
proof (induction v arbitrary: i acc s rule: PutUvarint.induct)
  case (1 x)
  show ?case
  proof (cases "x \<ge> 0x80")
    case True
    have i8: "i \<le> 8"
    proof (rule ccontr)
      assume "\<not> i \<le> 8"
      with 1(2) have "i = 9" by simp
      with 1(3,4) have "unat x < 2" by simp
      with True show False by (simp add: word_le_nat_alt)
    qed
    have b: "unat (drop_bit 7 x) < 2 ^ (64 - (s + 7))"
    proof -
      have "unat (drop_bit 7 x) = unat x div 2 ^ 7"
        by (simp add: unat_drop_bit_eq drop_bit_eq_div unat_div)
      moreover from 1(3) i8 have "(64::nat) - s = (64 - (s + 7)) + 7" by simp
      ultimately show ?thesis using 1(4)
        by (simp only: power_add less_mult_imp_div_less)
    qed
    from i8 have "Suc i \<le> 9" by simp
    note ih = 1(1) [OF True this _ b, of "acc OR push_bit s (take_bit 7 x)"]
    from 1(3) have "s + 7 = 7 * Suc i" by simp
    note ih2 = ih [OF this]
    have "PutUvarint x = (ucast x OR 0x80) # PutUvarint (drop_bit 7 x)"
      using True by (subst PutUvarint.simps) simp
    then show ?thesis using i8 ih2
      by (simp add: high_bit_set low7_take push_split or.assoc)
  next
    case False
    then have lt: "x < 0x80" by simp
    have "PutUvarint x = [ucast x]"
      using False by (subst PutUvarint.simps) simp
    moreover have "i = 9 \<Longrightarrow> \<not> (ucast x :: byte) > 1"
      using 1(3,4) by (intro tenth_byte) simp
    ultimately show ?thesis using 1(2) lt
      by (auto simp add: low7_ucast low7_less)
  qed
qed

lemma one_is_small [simp]: "\<not> (128 :: 64 word) \<le> 1"
  by (simp add: word_le_nat_alt)

lemma length_PutUvarint: "0 < length (PutUvarint v)"
  by (subst PutUvarint.simps) simp

lemma Uvarint_Put: "Uvarint (PutUvarint v @ rest) = (v, int (length (PutUvarint v)))"
proof -
  have "unat v < 2 ^ (64 - 0)" using unsigned_less [of v] by simp
  from Uvarint_loop_Put [OF _ _ this, of 0 0 rest] show ?thesis
    by (simp add: Uvarint_def)
qed

lemma stringOf_bytesOf [simp]: "stringOf (bytesOf s) = s"
proof -
  have "char_of (unat (of_nat (of_char c) :: byte)) = c" for c
    by (simp add: unat_of_nat)
  then show ?thesis by (simp add: stringOf_def bytesOf_def comp_def)
qed

lemma length_bytesOf [simp]: "length (bytesOf s) = length s"
  by (simp add: bytesOf_def)

text \<open>What a read gives on a buffer that starts with what the matching \<open>Put\<close> wrote.\<close>

lemma Be32_Put [simp]:
  "Be32 \<lparr>Decbuf_B = PutBE32 x @ rest, Decbuf_E = None\<rparr> = (x, \<lparr>Decbuf_B = rest, Decbuf_E = None\<rparr>)"
  by (simp add: Be32_def PutBE32_def BigEndian_Uint32_Put)

lemma Be64_Put [simp]:
  "Be64 \<lparr>Decbuf_B = PutBE64 x @ rest, Decbuf_E = None\<rparr> = (x, \<lparr>Decbuf_B = rest, Decbuf_E = None\<rparr>)"
  by (simp add: Be64_def PutBE64_def BigEndian_Uint64_Put)

lemma Be64int64_Put [simp]:
  "Be64int64 \<lparr>Decbuf_B = PutBE64int64 x @ rest, Decbuf_E = None\<rparr>
     = (x, \<lparr>Decbuf_B = rest, Decbuf_E = None\<rparr>)"
  by (simp add: Be64int64_def PutBE64int64_def)

lemma Be32int_Put [simp]:
  "Be32int \<lparr>Decbuf_B = PutBE32int x @ rest, Decbuf_E = None\<rparr>
     = (x mod 2 ^ 32, \<lparr>Decbuf_B = rest, Decbuf_E = None\<rparr>)"
  by (simp add: Be32int_def PutBE32int_def uint_word_of_int)

lemma Byte_Put [simp]:
  "Byte \<lparr>Decbuf_B = PutByte c @ rest, Decbuf_E = None\<rparr> = (c, \<lparr>Decbuf_B = rest, Decbuf_E = None\<rparr>)"
  by (simp add: Byte_def PutByte_def)

lemma UvarintStr_Put [simp]:
  assumes "gostr s"
  shows "UvarintStr \<lparr>Decbuf_B = PutUvarintStr s @ rest, Decbuf_E = None\<rparr>
           = (s, \<lparr>Decbuf_B = rest, Decbuf_E = None\<rparr>)"
proof -
  from assms have "length s < 2 ^ 64" by (simp add: gostr_def)
  then have l: "unat (of_nat (length s) :: 64 word) = length s"
    by (simp add: unat_of_nat)
  have "Uvarint64 \<lparr>Decbuf_B = PutUvarint (of_nat (length s)) @ bytesOf s @ rest, Decbuf_E = None\<rparr>
          = (of_nat (length s), \<lparr>Decbuf_B = bytesOf s @ rest, Decbuf_E = None\<rparr>)"
    using length_PutUvarint [of "of_nat (length s)"]
    by (simp add: Uvarint64_def Uvarint_Put)
  then show ?thesis
    by (simp add: UvarintStr_def PutUvarintStr_def l)
qed

subsection \<open>The loops of the reader on what the loops of the writer wrote\<close>

lemma update_new: "k \<notin> fst ` set m \<Longrightarrow> AList.update k v m = m @ [(k, v)]"
  by (induction m) auto

lemma fold_update_distinct:
  "distinct (map fst vals) \<Longrightarrow> fst ` set m \<inter> fst ` set vals = {} \<Longrightarrow>
   fold (\<lambda>(k, v). AList.update k v) vals m = m @ vals"
proof (induction vals arbitrary: m)
  case Nil
  then show ?case by simp
next
  case (Cons kv vals)
  obtain k v where kv: "kv = (k, v)" by (cases kv)
  from Cons.prems kv have "k \<notin> fst ` set m" by auto
  then have u: "AList.update k v m = m @ [(k, v)]" by (rule update_new)
  from Cons.prems kv have "distinct (map fst vals)"
    and "fst ` set (m @ [(k, v)]) \<inter> fst ` set vals = {}" by auto
  from Cons.IH [OF this] u kv show ?case by simp
qed

lemma values_round_trip:
  assumes "list_all (\<lambda>(key, v). gostr key \<and> jsonDatum_ok js v) vals"
  shows "\<exists>body. writeValues js vals = Inr body \<and>
           (\<forall>rest m. decodeDMLValues_loop js (length vals)
                        \<lparr>Decbuf_B = body @ rest, Decbuf_E = None\<rparr> m
                      = (Inr (fold (\<lambda>(k, v). AList.update k v) vals m),
                         \<lparr>Decbuf_B = rest, Decbuf_E = None\<rparr>))"
  using assms
proof (induction vals)
  case Nil
  then show ?case by simp
next
  case (Cons kv vals)
  obtain k v where kv: "kv = (k, v)" by (cases kv)
  from Cons.prems kv have k: "gostr k" and v: "jsonDatum_ok js v"
    and rest: "list_all (\<lambda>(key, v). gostr key \<and> jsonDatum_ok js v) vals" by simp_all
  from v obtain s where s: "json_MarshalDatum js v = Inr s" "gostr s"
    "json_UnmarshalDatum js s = Inr v"
    by (auto simp: jsonDatum_ok_def split: sum.splits)
  from Cons.IH [OF rest] obtain body where
    b: "writeValues js vals = Inr body"
    and d: "\<And>rest m. decodeDMLValues_loop js (length vals)
                        \<lparr>Decbuf_B = body @ rest, Decbuf_E = None\<rparr> m
                      = (Inr (fold (\<lambda>(k, v). AList.update k v) vals m),
                         \<lparr>Decbuf_B = rest, Decbuf_E = None\<rparr>)"
    by blast
  show ?case
    unfolding kv
    by (rule exI [of _ "PutUvarintStr k @ PutUvarintStr s @ body"])
       (simp add: s b d k)
qed

lemma columns_round_trip:
  assumes "list_all (jsonColumn_ok js) cs"
  shows "\<exists>body. writeColumns js cs = Inr body \<and>
           (\<forall>rest acc. decodeColumns_loop js (length cs)
                          \<lparr>Decbuf_B = body @ rest, Decbuf_E = None\<rparr> acc
                        = (Inr (acc @ cs), \<lparr>Decbuf_B = rest, Decbuf_E = None\<rparr>))"
  using assms
proof (induction cs)
  case Nil
  then show ?case by simp
next
  case (Cons c cs)
  then have c: "jsonColumn_ok js c" and rest: "list_all (jsonColumn_ok js) cs" by simp_all
  from c obtain s where s: "json_MarshalColumn js c = Inr s" "gostr s"
    "json_UnmarshalColumn js s = Inr c"
    by (auto simp: jsonColumn_ok_def split: sum.splits)
  from Cons.IH [OF rest] obtain body where
    b: "writeColumns js cs = Inr body"
    and d: "\<And>rest acc. decodeColumns_loop js (length cs)
                          \<lparr>Decbuf_B = body @ rest, Decbuf_E = None\<rparr> acc
                        = (Inr (acc @ cs), \<lparr>Decbuf_B = rest, Decbuf_E = None\<rparr>)"
    by blast
  show ?case
    by (rule exI [of _ "PutUvarintStr s @ body"]) (simp add: s b d)
qed

lemma dmls_round_trip:
  assumes "list_all (encodableDML js getter) dmls"
  shows "\<exists>body. writeDMLs js getter dmls = Inr body \<and>
           (\<forall>rest acc m. decodeDML_loop js (length dmls)
                            \<lparr>Decbuf_B = body @ rest, Decbuf_E = None\<rparr> acc m
                          = (Inr (acc @ dmls, fold (columnsStep getter) dmls m),
                             \<lparr>Decbuf_B = rest, Decbuf_E = None\<rparr>))"
  using assms
proof (induction dmls)
  case Nil
  then show ?case by simp
next
  case (Cons dml dmls)
  then have e: "encodableDML js getter dml"
    and rest: "list_all (encodableDML js getter) dmls" by simp_all
  from e have g: "gostr (Database dml)" "gostr (DML_Table dml)"
    and tp: "Tp dml mod 2 ^ 32 = Tp dml"
    and lv: "length (Values dml) < 2 ^ 32"
    and dv: "distinct (map fst (Values dml))"
    and vs: "list_all (\<lambda>(key, v). gostr key \<and> jsonDatum_ok js v) (Values dml)"
    by (simp_all add: encodableDML_def)
  from e obtain tblID tableInfo where
    t: "GetTableIDByName getter (Database dml) (DML_Table dml) = Some tblID"
       "TableByID getter tblID = Some tableInfo"
    and lc: "length (writableColumns tableInfo) < 2 ^ 32"
    and cs: "list_all (jsonColumn_ok js) (writableColumns tableInfo)"
    by (auto simp: encodableDML_def split: option.splits)
  from values_round_trip [OF vs] obtain vbody where
    vb: "writeValues js (Values dml) = Inr vbody"
    and vd: "\<And>rest m. decodeDMLValues_loop js (length (Values dml))
                        \<lparr>Decbuf_B = vbody @ rest, Decbuf_E = None\<rparr> m
                      = (Inr (fold (\<lambda>(k, v). AList.update k v) (Values dml) m),
                         \<lparr>Decbuf_B = rest, Decbuf_E = None\<rparr>)"
    by blast
  from fold_update_distinct [OF dv, of "[]"]
  have fv: "fold (\<lambda>(k, v). AList.update k v) (Values dml) [] = Values dml" by simp
  from columns_round_trip [OF cs] obtain cbody where
    cb: "writeColumns js (writableColumns tableInfo) = Inr cbody"
    and cd: "\<And>rest acc. decodeColumns_loop js (length (writableColumns tableInfo))
                          \<lparr>Decbuf_B = cbody @ rest, Decbuf_E = None\<rparr> acc
                        = (Inr (acc @ writableColumns tableInfo),
                           \<lparr>Decbuf_B = rest, Decbuf_E = None\<rparr>)"
    by blast
  from Cons.IH [OF rest] obtain body where
    b: "writeDMLs js getter dmls = Inr body"
    and d: "\<And>rest acc m. decodeDML_loop js (length dmls)
                            \<lparr>Decbuf_B = body @ rest, Decbuf_E = None\<rparr> acc m
                          = (Inr (acc @ dmls, fold (columnsStep getter) dmls m),
                             \<lparr>Decbuf_B = rest, Decbuf_E = None\<rparr>)"
    by blast
  have lv': "int (length (Values dml)) mod 4294967296 = int (length (Values dml))"
    using lv by simp
  have lc': "int (length (writableColumns tableInfo)) mod 4294967296
               = int (length (writableColumns tableInfo))"
    using lc by simp
  from tp have tp': "Tp dml mod 4294967296 = Tp dml" by simp
  have st: "columnsStep getter dml m
              = AList.update (FormColumnKey (Database dml) (DML_Table dml))
                  (writableColumns tableInfo) m" for m
    by (simp add: columnsStep_def t)
  have dml: "\<lparr>Database = Database dml, DML_Table = DML_Table dml, Tp = Tp dml,
              Values = Values dml\<rparr> = dml" by simp
  show ?case
    by (rule exI [of _ "PutUvarintStr (Database dml) @ PutUvarintStr (DML_Table dml) @
                        PutBE32int (Tp dml) @ PutBE32int (int (length (Values dml))) @ vbody @
                        PutBE32int (int (length (writableColumns tableInfo))) @ cbody @ body"])
       (simp add: vb cb b t g tp' decodeDMLValues_def lv' vd fv lc' cd d dml st)
qed

subsection \<open>A message of the writer, read back\<close>

lemma withoutChecksum_PutHash [simp]:
  "withoutChecksum (front @ PutHash h buf) = front @ buf"
  by (simp add: withoutChecksum_def PutHash_def)

lemma resolveTs_decodes:
  assumes "gostr cdc"
  shows "\<exists>data. resolveTsWriter_Write (NewResloveTsWriter cdc t) = Inr data \<and>
           Decode js data = Inr \<lparr>MsgType = ResolveTsType, CdcID = cdc, ResloveTs = t,
                                 Message_Txn = None, Columns = []\<rparr>"
proof -
  have w: "resolveTsWriter_Write (NewResloveTsWriter cdc t)
             = Inr (PutBE32 MagicIndex @ PutByte Version @ PutByte ResolveTsType @
                    PutUvarintStr cdc @ PutBE64int64 t @ [])"
    by (simp add: resolveTsWriter_Write_def NewResloveTsWriter_def writeMeta_def
          writer_write_def flush_def)
  have "Decode js (PutBE32 MagicIndex @ PutByte Version @ PutByte ResolveTsType @
                   PutUvarintStr cdc @ PutBE64int64 t @ [])
          = Inr \<lparr>MsgType = ResolveTsType, CdcID = cdc, ResloveTs = t,
                 Message_Txn = None, Columns = []\<rparr>"
    unfolding Decode_def decodeResloveTsMsg_def
    by (simp add: assms del: append_Nil2)
  with w show ?thesis by blast
qed

lemma ddl_decodes:
  assumes "gostr cdc" "gostr (DDL_Database ddl)" "gostr (DDL_Table ddl)"
    and "json_MarshalJob js (DDL_Job ddl) = Inr s" "gostr s"
    and "json_UnmarshalJob js s = Inr (DDL_Job ddl)"
  shows "Decode js (PutBE32 MagicIndex @ PutByte Version @ PutByte TxnType @
                    PutUvarintStr cdc @ PutBE64 t @ PutByte DdlOp @ PutBE32int n @
                    PutUvarintStr (DDL_Database ddl) @ PutUvarintStr (DDL_Table ddl) @
                    PutUvarintStr s @ tail)
           = Inr \<lparr>MsgType = TxnType, CdcID = cdc, ResloveTs = 0,
                  Message_Txn = Some \<lparr>Txn_Ts = t, DMLs = [], Txn_DDL = Some ddl\<rparr>,
                  Columns = []\<rparr>"
proof -
  have types: "TxnType \<noteq> ResolveTsType" "DdlOp \<noteq> DmlOp"
    by (simp_all add: TxnType_def ResolveTsType_def DdlOp_def DmlOp_def)
  show ?thesis
    unfolding Decode_def decodeTxnMsg_def decodeDDL_def
    by (simp add: assms types)
qed

lemma dml_decodes:
  assumes "gostr cdc" "length dmls < 2 ^ 32"
    and "writeDMLs js getter dmls = Inr body"
    and "\<And>rest acc m. decodeDML_loop js (length dmls)
                            \<lparr>Decbuf_B = body @ rest, Decbuf_E = None\<rparr> acc m
                          = (Inr (acc @ dmls, fold (columnsStep getter) dmls m),
                             \<lparr>Decbuf_B = rest, Decbuf_E = None\<rparr>)"
  shows "Decode js (PutBE32 MagicIndex @ PutByte Version @ PutByte TxnType @
                    PutUvarintStr cdc @ PutBE64 t @ PutByte DmlOp @
                    PutBE32int (int (length dmls)) @ PutBE32int n @ body @ tail)
           = Inr \<lparr>MsgType = TxnType, CdcID = cdc, ResloveTs = 0,
                  Message_Txn = Some \<lparr>Txn_Ts = t, DMLs = dmls, Txn_DDL = None\<rparr>,
                  Columns = columnsOf getter dmls\<rparr>"
proof -
  have types: "TxnType \<noteq> ResolveTsType"
    by (simp_all add: TxnType_def ResolveTsType_def)
  from assms(2) have l: "int (length dmls) mod 4294967296 = int (length dmls)" by simp
  show ?thesis
    unfolding Decode_def decodeTxnMsg_def decodeDML_def
    by (simp add: assms(1,4) types l columnsOf_def)
qed

lemma txn_decodes:
  assumes "encodable js getter cdc txn"
  shows "\<exists>data. txnWriter_Write js (NewTxnWriter cdc txn getter) = Inr data \<and>
           Decode js data = Inr (messageOf getter cdc txn) \<and>
           (\<forall>tail. Decode js (withoutChecksum data @ tail) = Inr (messageOf getter cdc txn))"
proof (cases "Txn_DDL txn")
  case (Some ddl)
  with assms have g: "gostr cdc" "gostr (DDL_Database ddl)" "gostr (DDL_Table ddl)"
    and j: "jsonJob_ok js (DDL_Job ddl)" and e: "DMLs txn = []"
    by (simp_all add: encodable_def)
  from j obtain s where s: "json_MarshalJob js (DDL_Job ddl) = Inr s" "gostr s"
    "json_UnmarshalJob js s = Inr (DDL_Job ddl)"
    by (auto simp: jsonJob_ok_def split: sum.splits)
  define buf2 where "buf2 = PutUvarintStr (DDL_Database ddl) @ PutUvarintStr (DDL_Table ddl) @
                            PutUvarintStr s"
  define front where "front = PutBE32 MagicIndex @ PutByte Version @ PutByte TxnType @
                    PutUvarintStr cdc @ PutBE64 (Txn_Ts txn) @ PutByte DdlOp @
                    PutBE32int (int (length buf2))"
  have w: "txnWriter_Write js (NewTxnWriter cdc txn getter)
             = Inr (front @ PutHash castagnoliTable buf2)"
    by (simp add: txnWriter_Write_def NewTxnWriter_def Some s writeMeta_def writer_write_def
          flush_def front_def buf2_def Let_def)
  have m: "messageOf getter cdc txn
             = \<lparr>MsgType = TxnType, CdcID = cdc, ResloveTs = 0,
                Message_Txn = Some \<lparr>Txn_Ts = Txn_Ts txn, DMLs = [], Txn_DDL = Some ddl\<rparr>,
                Columns = []\<rparr>"
    using Some e by (simp add: messageOf_def IsDDL_def)
  have d: "Decode js (front @ buf2 @ tail) = Inr (messageOf getter cdc txn)" for tail
    unfolding m front_def buf2_def
    using ddl_decodes [OF g s, where t = "Txn_Ts txn" and n = "int (length buf2)"
             and tail = tail]
    by (simp add: buf2_def)
  from d [of "PutUint32 (castagnoliTable buf2)"]
  have "Decode js (front @ PutHash castagnoliTable buf2) = Inr (messageOf getter cdc txn)"
    by (simp add: PutHash_def)
  moreover have "Decode js (withoutChecksum (front @ PutHash castagnoliTable buf2) @ tail)
                   = Inr (messageOf getter cdc txn)" for tail
    using d [of tail] by simp
  ultimately show ?thesis using w by simp
next
  case None
  with assms have g: "gostr cdc" and l: "length (DMLs txn) < 2 ^ 32"
    and a: "list_all (encodableDML js getter) (DMLs txn)"
    by (simp_all add: encodable_def)
  from dmls_round_trip [OF a] obtain body where
    b: "writeDMLs js getter (DMLs txn) = Inr body"
    and dl: "\<And>rest acc m. decodeDML_loop js (length (DMLs txn))
                            \<lparr>Decbuf_B = body @ rest, Decbuf_E = None\<rparr> acc m
                          = (Inr (acc @ DMLs txn, fold (columnsStep getter) (DMLs txn) m),
                             \<lparr>Decbuf_B = rest, Decbuf_E = None\<rparr>)"
    by blast
  define front where "front = PutBE32 MagicIndex @ PutByte Version @ PutByte TxnType @
                    PutUvarintStr cdc @ PutBE64 (Txn_Ts txn) @ PutByte DmlOp @
                    PutBE32int (int (length (DMLs txn))) @ PutBE32int (int (length body))"
  have w: "txnWriter_Write js (NewTxnWriter cdc txn getter)
             = Inr (front @ PutHash castagnoliTable body)"
    by (simp add: txnWriter_Write_def NewTxnWriter_def None b writeDML_def writeMeta_def
          writer_write_def flush_def front_def Let_def)
  have m: "messageOf getter cdc txn
             = \<lparr>MsgType = TxnType, CdcID = cdc, ResloveTs = 0,
                Message_Txn = Some \<lparr>Txn_Ts = Txn_Ts txn, DMLs = DMLs txn, Txn_DDL = None\<rparr>,
                Columns = columnsOf getter (DMLs txn)\<rparr>"
    using None by (simp add: messageOf_def IsDDL_def)
  have d: "Decode js (front @ body @ tail) = Inr (messageOf getter cdc txn)" for tail
    unfolding m front_def
    using dml_decodes [OF g l b dl, where t = "Txn_Ts txn" and n = "int (length body)"
             and tail = tail]
    by simp
  from d [of "PutUint32 (castagnoliTable body)"]
  have "Decode js (front @ PutHash castagnoliTable body) = Inr (messageOf getter cdc txn)"
    by (simp add: PutHash_def)
  moreover have "Decode js (withoutChecksum (front @ PutHash castagnoliTable body) @ tail)
                   = Inr (messageOf getter cdc txn)" for tail
    using d [of tail] by simp
  ultimately show ?thesis using w by simp
qed

text \<open>The names in the bytes of the examples.\<close>

lemma names_ex:
  "stringOf [99, 100, 99] = ''cdc''" "stringOf [116, 101, 115, 116] = ''test''"
  "stringOf [116] = ''t''"
proof -
  have "[99, 100, 99] = bytesOf ''cdc''" "[116, 101, 115, 116] = bytesOf ''test''"
    "[116] = bytesOf ''t''"
    by (simp_all add: bytesOf_def)
  then show "stringOf [99, 100, 99] = ''cdc''" "stringOf [116, 101, 115, 116] = ''test''"
    "stringOf [116] = ''t''"
    by (simp_all only: stringOf_bytesOf)
qed

section \<open>Queueing an operation cancels an opposite one\<close>

lemma map_of_appendTaskOperation_other:
  "t \<noteq> tableID \<Longrightarrow>
   map_of (appendTaskOperation m tableID operation) t = map_of m t"
  by (simp add: appendTaskOperation_def update_conv' delete_conv' split: option.splits)

lemma distinct_appendTaskOperation:
  "distinct (map fst m) \<Longrightarrow> distinct (map fst (appendTaskOperation m tableID operation))"
  by (simp add: appendTaskOperation_def distinct_update distinct_delete split: option.splits)

text \<open>
  Claim C9. For an operation map \<open>m\<close> (distinct keys) and a table id: queueing an
  operation of the opposite kind to the one already queued for the id removes the id from
  the map instead of storing the new operation; queueing one of the same kind leaves the
  map as it is; an id with no queued operation gets the new one; the other ids keep what
  they had; and the result is again a map, so it never holds an add and a delete for the
  same id.
\<close>

theorem appendTaskOperation_cancels:
  "(map_of m tableID = Some orig \<and> Delete orig \<noteq> Delete operation \<longrightarrow>
      map_of (appendTaskOperation m tableID operation) tableID = None) \<and>
   (map_of m tableID = Some orig \<and> Delete orig = Delete operation \<longrightarrow>
      appendTaskOperation m tableID operation = m) \<and>
   (map_of m tableID = None \<longrightarrow>
      map_of (appendTaskOperation m tableID operation) tableID = Some operation) \<and>
   (t \<noteq> tableID \<longrightarrow> map_of (appendTaskOperation m tableID operation) t = map_of m t) \<and>
   (distinct (map fst m) \<longrightarrow>
      distinct (map fst (appendTaskOperation m tableID operation)) \<and>
      (\<forall>t a b. (t, a) \<in> set (appendTaskOperation m tableID operation) \<and>
               (t, b) \<in> set (appendTaskOperation m tableID operation) \<longrightarrow>
               Delete a = Delete b))"
proof (intro conjI impI allI)
  assume "map_of m tableID = Some orig \<and> Delete orig \<noteq> Delete operation"
  then show "map_of (appendTaskOperation m tableID operation) tableID = None"
    by (simp add: appendTaskOperation_def delete_conv')
next
  assume "map_of m tableID = Some orig \<and> Delete orig = Delete operation"
  then show "appendTaskOperation m tableID operation = m"
    by (simp add: appendTaskOperation_def)
next
  assume "map_of m tableID = None"
  then show "map_of (appendTaskOperation m tableID operation) tableID = Some operation"
    by (simp add: appendTaskOperation_def update_conv')
next
  assume "t \<noteq> tableID"
  then show "map_of (appendTaskOperation m tableID operation) t = map_of m t"
    by (rule map_of_appendTaskOperation_other)
next
  assume "distinct (map fst m)"
  then show "distinct (map fst (appendTaskOperation m tableID operation))"
    by (rule distinct_appendTaskOperation)
next
  fix t' a b
  assume d: "distinct (map fst m)"
    and two: "(t', a) \<in> set (appendTaskOperation m tableID operation) \<and>
              (t', b) \<in> set (appendTaskOperation m tableID operation)"
  have "distinct (map fst (appendTaskOperation m tableID operation))"
    using d by (rule distinct_appendTaskOperation)
  with two have "a = b"
    by (meson eq_key_imp_eq_value)
  then show "Delete a = Delete b"
    by simp
qed

theorem appendTaskOperation_cancels_witness:
  "map_of (appendTaskOperation [(7, \<lparr>Delete = False, BoundaryTs = 100, applied = Pending\<rparr>)] 7
             \<lparr>Delete = True, BoundaryTs = 200, applied = Pending\<rparr>) 7 = None \<and>
   appendTaskOperation [(7, \<lparr>Delete = True, BoundaryTs = 100, applied = Pending\<rparr>)] 7
             \<lparr>Delete = True, BoundaryTs = 200, applied = Pending\<rparr>
     = [(7, \<lparr>Delete = True, BoundaryTs = 100, applied = Pending\<rparr>)] \<and>
   map_of (appendTaskOperation [] 7 \<lparr>Delete = True, BoundaryTs = 200, applied = Pending\<rparr>) 7
     = Some \<lparr>Delete = True, BoundaryTs = 200, applied = Pending\<rparr> \<and>
   distinct (map fst (appendTaskOperation
             [(7, \<lparr>Delete = False, BoundaryTs = 100, applied = Pending\<rparr>)] 8
             \<lparr>Delete = True, BoundaryTs = 200, applied = Pending\<rparr>))"
proof -
  have h1: "map_of [(7::TableID, \<lparr>Delete = False, BoundaryTs = 100, applied = Pending\<rparr>)] 7
              = Some \<lparr>Delete = False, BoundaryTs = 100, applied = Pending\<rparr> \<and>
            Delete \<lparr>Delete = False, BoundaryTs = 100, applied = Pending\<rparr>
              \<noteq> Delete \<lparr>Delete = True, BoundaryTs = 200, applied = Pending\<rparr>"
    by simp
  have h2: "map_of [(7::TableID, \<lparr>Delete = True, BoundaryTs = 100, applied = Pending\<rparr>)] 7
              = Some \<lparr>Delete = True, BoundaryTs = 100, applied = Pending\<rparr> \<and>
            Delete \<lparr>Delete = True, BoundaryTs = 100, applied = Pending\<rparr>
              = Delete \<lparr>Delete = True, BoundaryTs = 200, applied = Pending\<rparr>"
    by simp
  have h3: "map_of ([] :: (TableID \<times> TableOperation) list) 7 = None"
    by simp
  have h4: "distinct (map fst [(7::TableID, \<lparr>Delete = False, BoundaryTs = 100, applied = Pending\<rparr>)])"
    by simp
  note c1 = appendTaskOperation_cancels
          [of "[(7, \<lparr>Delete = False, BoundaryTs = 100, applied = Pending\<rparr>)]" 7
              "\<lparr>Delete = False, BoundaryTs = 100, applied = Pending\<rparr>"
              "\<lparr>Delete = True, BoundaryTs = 200, applied = Pending\<rparr>" 8,
           THEN conjunct1, rule_format, OF h1]
  note c2 = appendTaskOperation_cancels
          [of "[(7, \<lparr>Delete = True, BoundaryTs = 100, applied = Pending\<rparr>)]" 7
              "\<lparr>Delete = True, BoundaryTs = 100, applied = Pending\<rparr>"
              "\<lparr>Delete = True, BoundaryTs = 200, applied = Pending\<rparr>" 8,
           THEN conjunct2, THEN conjunct1, rule_format, OF h2]
  note c3 = appendTaskOperation_cancels
          [of "[]" 7 "\<lparr>Delete = True, BoundaryTs = 100, applied = Pending\<rparr>"
              "\<lparr>Delete = True, BoundaryTs = 200, applied = Pending\<rparr>" 8,
           THEN conjunct2, THEN conjunct2, THEN conjunct1, rule_format, OF h3]
  note c4 = appendTaskOperation_cancels
          [of "[(7, \<lparr>Delete = False, BoundaryTs = 100, applied = Pending\<rparr>)]" 8
              "\<lparr>Delete = False, BoundaryTs = 100, applied = Pending\<rparr>"
              "\<lparr>Delete = True, BoundaryTs = 200, applied = Pending\<rparr>" 7,
           THEN conjunct2, THEN conjunct2, THEN conjunct2, THEN conjunct2, rule_format,
           OF h4, THEN conjunct1]
  from c1 c2 c3 c4 show ?thesis
    by (intro conjI)
qed

section \<open>PullDDL drains the handler's buffer\<close>

lemma receiveLoop_jobs:
  "receiveLoop U S h es = (r, h') \<Longrightarrow>
   ddlJobs h' = ddlJobs h @ acceptedJobs U S es \<and> resolvedTS h' = lastResolved U (resolvedTS h) es"
proof (induction es arbitrary: h)
  case Nil
  then show ?case by simp
next
  case (Cons e es)
  show ?case
  proof (cases "OpType e = OpTypeResolved")
    case True
    with Cons.prems
    have "receiveLoop U S (h\<lparr>resolvedTS := RawKVEntry_Ts e\<rparr>) es = (r, h')"
      by (simp add: receiveDDL_def)
    from Cons.IH [OF this] True show ?thesis by simp
  next
    case False
    show ?thesis
    proof (cases "U e")
      case (Inl err)
      with False Cons.prems show ?thesis by (simp add: receiveDDL_def)
    next
      case (Inr jo)
      show ?thesis
      proof (cases jo)
        case None
        with Inr False Cons.prems have "receiveLoop U S h es = (r, h')"
          by (simp add: receiveDDL_def)
        from Cons.IH [OF this] None Inr False show ?thesis by simp
      next
        case (Some job)
        show ?thesis
        proof (cases "S job")
          case True
          with Some Inr False Cons.prems have "receiveLoop U S h es = (r, h')"
            by (simp add: receiveDDL_def)
          from Cons.IH [OF this] True Some Inr False show ?thesis by simp
        next
          case notskip: False
          with Some Inr False Cons.prems
          have "receiveLoop U S (h\<lparr>ddlJobs := ddlJobs h @ [job]\<rparr>) es = (r, h')"
            by (simp add: receiveDDL_def)
          from Cons.IH [OF this] notskip Some Inr False show ?thesis by simp
        qed
      qed
    qed
  qed
qed

text \<open>
  Claim C10. \<open>PullDDL\<close> returns the handler's resolved timestamp and the jobs buffered
  so far, with a nil error, and empties the buffer: a second call right after it returns
  no job; and when entries \<open>es\<close> are received between two calls, the second call returns
  exactly the jobs accepted from \<open>es\<close> (none of the jobs of the first call) and the
  resolved timestamp of the last resolved entry among them.
\<close>

theorem PullDDL_drains:
  "fst (PullDDL h) = (resolvedTS h, ddlJobs h, None) \<and>
   ddlJobs (snd (PullDDL h)) = [] \<and>
   fst (PullDDL (snd (PullDDL h))) = (resolvedTS h, [], None) \<and>
   (receiveLoop U S (snd (PullDDL h)) es = (r, h') \<longrightarrow>
      fst (PullDDL h') = (lastResolved U (resolvedTS h) es, acceptedJobs U S es, None))"
proof (intro conjI impI)
  show "fst (PullDDL h) = (resolvedTS h, ddlJobs h, None)"
    by (simp add: PullDDL_def)
  show "ddlJobs (snd (PullDDL h)) = []"
    by (simp add: PullDDL_def)
  show "fst (PullDDL (snd (PullDDL h))) = (resolvedTS h, [], None)"
    by (simp add: PullDDL_def)
next
  assume "receiveLoop U S (snd (PullDDL h)) es = (r, h')"
  from receiveLoop_jobs [OF this]
  show "fst (PullDDL h') = (lastResolved U (resolvedTS h) es, acceptedJobs U S es, None)"
    by (simp add: PullDDL_def)
qed

theorem PullDDL_drains_witness:
  "receiveLoop (\<lambda>e. Inr (Some job_example)) (\<lambda>j. False)
       (snd (PullDDL \<lparr>resolvedTS = 1000, ddlJobs = [job_example, job_example]\<rparr>))
       [\<lparr>OpType = OpTypePut, Key = [], Value = [], RawKVEntry_Ts = 1200\<rparr>,
        \<lparr>OpType = OpTypeResolved, Key = [], Value = [], RawKVEntry_Ts = 1300\<rparr>]
     = (None, \<lparr>resolvedTS = 1300, ddlJobs = [job_example]\<rparr>) \<and>
   fst (PullDDL \<lparr>resolvedTS = 1300, ddlJobs = [job_example]\<rparr>)
     = (lastResolved (\<lambda>e. Inr (Some job_example)) 1000
          [\<lparr>OpType = OpTypePut, Key = [], Value = [], RawKVEntry_Ts = 1200\<rparr>,
           \<lparr>OpType = OpTypeResolved, Key = [], Value = [], RawKVEntry_Ts = 1300\<rparr>],
        acceptedJobs (\<lambda>e. Inr (Some job_example)) (\<lambda>j. False)
          [\<lparr>OpType = OpTypePut, Key = [], Value = [], RawKVEntry_Ts = 1200\<rparr>,
           \<lparr>OpType = OpTypeResolved, Key = [], Value = [], RawKVEntry_Ts = 1300\<rparr>],
        None)"
proof -
  have run: "receiveLoop (\<lambda>e. Inr (Some job_example)) (\<lambda>j. False)
       (snd (PullDDL \<lparr>resolvedTS = 1000, ddlJobs = [job_example, job_example]\<rparr>))
       [\<lparr>OpType = OpTypePut, Key = [], Value = [], RawKVEntry_Ts = 1200\<rparr>,
        \<lparr>OpType = OpTypeResolved, Key = [], Value = [], RawKVEntry_Ts = 1300\<rparr>]
     = (None, \<lparr>resolvedTS = 1300, ddlJobs = [job_example]\<rparr>)"
    by (simp add: PullDDL_def receiveDDL_def)
  from PullDDL_drains [of "\<lparr>resolvedTS = 1000, ddlJobs = [job_example, job_example]\<rparr>",
         THEN conjunct2, THEN conjunct2, THEN conjunct2, rule_format, OF run]
  have "fst (PullDDL \<lparr>resolvedTS = 1300, ddlJobs = [job_example]\<rparr>)
     = (lastResolved (\<lambda>e. Inr (Some job_example))
          (resolvedTS \<lparr>resolvedTS = 1000, ddlJobs = [job_example, job_example]\<rparr>)
          [\<lparr>OpType = OpTypePut, Key = [], Value = [], RawKVEntry_Ts = 1200\<rparr>,
           \<lparr>OpType = OpTypeResolved, Key = [], Value = [], RawKVEntry_Ts = 1300\<rparr>],
        acceptedJobs (\<lambda>e. Inr (Some job_example)) (\<lambda>j. False)
          [\<lparr>OpType = OpTypePut, Key = [], Value = [], RawKVEntry_Ts = 1200\<rparr>,
           \<lparr>OpType = OpTypeResolved, Key = [], Value = [], RawKVEntry_Ts = 1300\<rparr>],
        None)" .
  then have "fst (PullDDL \<lparr>resolvedTS = 1300, ddlJobs = [job_example]\<rparr>)
     = (lastResolved (\<lambda>e. Inr (Some job_example)) 1000
          [\<lparr>OpType = OpTypePut, Key = [], Value = [], RawKVEntry_Ts = 1200\<rparr>,
           \<lparr>OpType = OpTypeResolved, Key = [], Value = [], RawKVEntry_Ts = 1300\<rparr>],
        acceptedJobs (\<lambda>e. Inr (Some job_example)) (\<lambda>j. False)
          [\<lparr>OpType = OpTypePut, Key = [], Value = [], RawKVEntry_Ts = 1200\<rparr>,
           \<lparr>OpType = OpTypeResolved, Key = [], Value = [], RawKVEntry_Ts = 1300\<rparr>],
        None)"
    by (simp only: ddlHandler.simps)
  with run show ?thesis by (intro conjI)
qed

section \<open>What calcResolvedTs computes\<close>

text \<open>
  Claim C1, as amended. In state \<open>SyncDML\<close> or \<open>WaitToExecDDL\<close>, and when at least as
  many positions as task statuses are reported, \<open>calcResolvedTs\<close> does what
  \<open>calcResolvedTs_spec\<close> says: the two minima are taken over the target timestamp, the
  reported positions, the applied timestamps, the orphan tables and the tables to clean
  (the checkpoint minimum starting from the stored resolved timestamp when no position is
  reported); the resolved minimum is clamped to the DDL resolved timestamp, after pulling
  the DDL jobs when it was above it; a head job finished strictly before the resolved
  minimum lowers it to its finished timestamp and sets the state to \<open>WaitToExecDDL\<close>; the
  checkpoint minimum is clamped to the resolved minimum; and each stored timestamp is
  raised to its minimum when that is greater.
\<close>

theorem calcResolvedTs_computes:
  assumes "ddlState c = ChangeFeedSyncDML \<or> ddlState c = ChangeFeedWaitToExecDDL"
    and "length (taskStatus c) \<le> length (taskPositions c)"
  shows "calcResolvedTs deps c = calcResolvedTs_spec deps c"
proof -
  have g1: "\<not> (ddlState c \<noteq> ChangeFeedSyncDML \<and> ddlState c \<noteq> ChangeFeedWaitToExecDDL)"
    using assms(1) by blast
  have g2: "\<not> length (taskPositions c) < length (taskStatus c)"
    using assms(2) by simp
  have "calcResolvedTs deps c =
          (case pullAndClamp deps c (spec_minResolvedTs c) of
             (Some err, c1, minResolvedTs1) \<Rightarrow> (Some err, c1, [])
           | (None, c1, minResolvedTs1) \<Rightarrow>
               (case waitForDDL c1 minResolvedTs1 of
                  (c2, minResolvedTs2) \<Rightarrow> commitTs deps c2 minResolvedTs2 (spec_minCheckpointTs c)))"
    unfolding calcResolvedTs_def Let_def minima_Min using g1 g2 by auto
  also have "\<dots> = calcResolvedTs_spec deps c"
    unfolding pullAndClamp_min calcResolvedTs_spec_def
    by (simp only: prod.case option.case wait_commit [OF pullDDLJob_frame_if] Let_def)
  finally show ?thesis .
qed

theorem calcResolvedTs_computes_witness:
  "ddlState cf_sync = ChangeFeedSyncDML \<and>
   length (taskStatus cf_sync) \<le> length (taskPositions cf_sync) \<and>
   calcResolvedTs_spec deps_ok cf_sync =
     (None,
      cf_sync\<lparr>ddlState := ChangeFeedWaitToExecDDL,
              status := \<lparr>ResolvedTs = 1200, CheckpointTs = 1150\<rparr>\<rparr>,
      [])"
proof -
  have h1: "ddlState cf_sync = ChangeFeedSyncDML \<or> ddlState cf_sync = ChangeFeedWaitToExecDDL"
    by (simp add: cf_sync_def)
  have h2: "length (taskStatus cf_sync) \<le> length (taskPositions cf_sync)"
    by (simp add: cf_sync_def)
  have run: "calcResolvedTs deps_ok cf_sync =
     (None,
      cf_sync\<lparr>ddlState := ChangeFeedWaitToExecDDL,
              status := \<lparr>ResolvedTs = 1200, CheckpointTs = 1150\<rparr>\<rparr>,
      [])"
    by (simp add: calcResolvedTs_def deps_ok_def cf_sync_def minOverPositions_def
          minOverTaskStatus_def minOverTables_def AppliedTs_def emptyStatus_def MaxUint64_def
          pullAndClamp_def waitForDDL_def commitTs_def job_example_def Let_def)
  have s: "ddlState cf_sync = ChangeFeedSyncDML"
    by (simp add: cf_sync_def)
  from calcResolvedTs_computes [OF h1 h2, of deps_ok] run s h2 show ?thesis
    by simp
qed

text \<open>
  The claim as stated fails in three places. With the head job finished exactly at the
  resolved minimum (1200), the state stays \<open>SyncDML\<close>; with fewer positions than task
  statuses nothing is computed; with no position at all the checkpoint minimum starts from
  the stored resolved timestamp (1100), not from the target timestamp, so the stored
  checkpoint becomes 1100 although the resolved minimum is 1200.
\<close>

theorem calcResolvedTs_counterexample:
  "FinishedTS (BinlogInfo (hd (ddlJobHistory cf_eq))) = 1200 \<and>
   calcResolvedTs deps_ok cf_eq =
     (None, cf_eq\<lparr>status := \<lparr>ResolvedTs = 1200, CheckpointTs = 1150\<rparr>\<rparr>, [EmitCheckpointTs 1150]) \<and>
   ddlState (cf_eq\<lparr>status := \<lparr>ResolvedTs = 1200, CheckpointTs = 1150\<rparr>\<rparr>) = ChangeFeedSyncDML \<and>
   calcResolvedTs deps_ok cf_few = (None, cf_few, []) \<and>
   calcResolvedTs deps_ok cf_none =
     (None,
      cf_none\<lparr>ddlState := ChangeFeedWaitToExecDDL,
              status := \<lparr>ResolvedTs = 1200, CheckpointTs = 1100\<rparr>\<rparr>,
      [])"
  by (simp add: calcResolvedTs_def deps_ok_def cf_eq_def cf_few_def cf_none_def cf_sync_def
        minOverPositions_def minOverTaskStatus_def minOverTables_def AppliedTs_def
        emptyStatus_def MaxUint64_def pullAndClamp_def pullDDLJob_def PullDDL_def
        waitForDDL_def commitTs_def job_example_def Let_def)

section \<open>The stored timestamps never decrease\<close>

text \<open>
  Claim C2. Along every run of the owner on a changefeed, the stored resolved timestamp
  and the stored checkpoint never decrease, and when the checkpoint was at most the
  resolved timestamp at the start it is so after every step; a single call of
  \<open>calcResolvedTs\<close> leaves each stored timestamp as it was or makes it strictly greater.
\<close>

theorem status_never_decreases:
  "(ownerRun deps (c, store) steps = (c', store') \<longrightarrow>
      ResolvedTs (status c) \<le> ResolvedTs (status c') \<and>
      CheckpointTs (status c) \<le> CheckpointTs (status c') \<and>
      (CheckpointTs (status c) \<le> ResolvedTs (status c) \<longrightarrow>
         CheckpointTs (status c') \<le> ResolvedTs (status c'))) \<and>
   (calcResolvedTs deps c = (err, c1, calls) \<longrightarrow>
      (ResolvedTs (status c1) = ResolvedTs (status c) \<or>
       ResolvedTs (status c) < ResolvedTs (status c1)) \<and>
      (CheckpointTs (status c1) = CheckpointTs (status c) \<or>
       CheckpointTs (status c) < CheckpointTs (status c1)) \<and>
      (CheckpointTs (status c) \<le> ResolvedTs (status c) \<longrightarrow>
         CheckpointTs (status c1) \<le> ResolvedTs (status c1)))"
proof (intro conjI impI)
  assume run: "ownerRun deps (c, store) steps = (c', store')"
  from ownerRun_status [OF run]
  show "ResolvedTs (status c) \<le> ResolvedTs (status c')"
    and "CheckpointTs (status c) \<le> CheckpointTs (status c')"
    by simp_all
  assume "CheckpointTs (status c) \<le> ResolvedTs (status c)"
  with ownerRun_status [OF run]
  show "CheckpointTs (status c') \<le> ResolvedTs (status c')"
    by simp
next
  assume call: "calcResolvedTs deps c = (err, c1, calls)"
  then have "status c1 = status (fst (snd (calcResolvedTs deps c)))"
    by simp
  with calcResolvedTs_status [of deps c]
  have step: "status c1 = status c \<or>
     (\<exists>r k. status c1 = (status c)\<lparr>ResolvedTs := max (ResolvedTs (status c)) r,
                                    CheckpointTs := max (CheckpointTs (status c)) (min k r)\<rparr>)"
    by simp
  note mono = status_step [OF step]
  from mono show "ResolvedTs (status c1) = ResolvedTs (status c) \<or>
       ResolvedTs (status c) < ResolvedTs (status c1)"
    by auto
  from mono show "CheckpointTs (status c1) = CheckpointTs (status c) \<or>
       CheckpointTs (status c) < CheckpointTs (status c1)"
    by auto
  assume "CheckpointTs (status c) \<le> ResolvedTs (status c)"
  with mono show "CheckpointTs (status c1) \<le> ResolvedTs (status c1)"
    by simp
qed

theorem status_never_decreases_witness:
  "ownerRun deps_ok (cf_sync, []) steps_due = (cf_due, []) \<and>
   CheckpointTs (status cf_sync) \<le> ResolvedTs (status cf_sync) \<and>
   ResolvedTs (status cf_sync) \<le> ResolvedTs (status cf_due) \<and>
   CheckpointTs (status cf_sync) \<le> CheckpointTs (status cf_due) \<and>
   CheckpointTs (status cf_due) \<le> ResolvedTs (status cf_due)"
proof -
  have run: "ownerRun deps_ok (cf_sync, []) steps_due = (cf_due, [])"
    by (simp add: ownerRun_def ownerStep_def updateProcessorInfos_def calcResolvedTs_def
          steps_due_def cf_due_def
          deps_ok_def cf_sync_def minOverPositions_def minOverTaskStatus_def minOverTables_def
          AppliedTs_def emptyStatus_def MaxUint64_def pullAndClamp_def waitForDDL_def
          commitTs_def job_example_def Let_def)
  have inv: "CheckpointTs (status cf_sync) \<le> ResolvedTs (status cf_sync)"
    by (simp add: cf_sync_def)
  note mono = status_never_decreases [THEN conjunct1, rule_format, OF run]
  from mono inv have "CheckpointTs (status cf_due) \<le> ResolvedTs (status cf_due)"
    by blast
  with run inv mono show ?thesis by blast
qed

section \<open>handleDDL executes the head job only when it is due\<close>

text \<open>
  Claim C4. For every changefeed \<open>c\<close> that a run of the owner reaches from a changefeed
  in state \<open>SyncDML\<close>: unless the state of \<open>c\<close> is \<open>WaitToExecDDL\<close>, at least as many
  positions as task statuses are reported, and the stored checkpoint equals the finished
  timestamp of the head job, \<open>handleDDL\<close> returns nil and leaves the changefeed (its
  schema snapshot and its DDL state among the rest) and the metadata store as they were,
  with no call on the sink. So whenever \<open>handleDDL\<close> does anything else, the three
  conditions hold. The second condition compares the two counts (line 554); which captures
  are alive, and which of them have reported, is not looked at: the statement holds for
  every set of captures.
\<close>

theorem handleDDL_only_when_due:
  assumes "ddlState c0 = ChangeFeedSyncDML"
    and "ownerRun deps (c0, store0) steps = (c, store)"
  shows
    "(\<not> (ddlState c = ChangeFeedWaitToExecDDL \<and>
          length (taskStatus c) \<le> length (taskPositions c) \<and>
          CheckpointTs (status c) = FinishedTS (BinlogInfo (hd (ddlJobHistory c)))) \<longrightarrow>
        handleDDL deps c store captures = (None, c, store, [])) \<and>
     (handleDDL deps c store captures \<noteq> (None, c, store, []) \<longrightarrow>
        ddlState c = ChangeFeedWaitToExecDDL \<and>
        length (taskStatus c) \<le> length (taskPositions c) \<and>
        CheckpointTs (status c) = FinishedTS (BinlogInfo (hd (ddlJobHistory c))))"
proof -
  from assms(1) have "wait_inv c0"
    by (simp add: wait_inv_def)
  with assms(2) have "wait_inv c"
    by (rule wait_inv_ownerRun)
  then have "ddlState c = ChangeFeedWaitToExecDDL \<longrightarrow> ddlJobHistory c \<noteq> []"
    by (simp add: wait_inv_def)
  from handleDDL_noop [OF this, of deps store captures] show ?thesis
    by blast
qed

theorem handleDDL_only_when_due_witness:
  "ddlState cf_sync = ChangeFeedSyncDML \<and>
   ownerRun deps_ok (cf_sync, []) [] = (cf_sync, []) \<and>
   handleDDL deps_ok cf_sync [] [''a'', ''b''] = (None, cf_sync, [], []) \<and>
   ownerRun deps_ok (cf_sync, []) [StepCalcResolvedTs] = (cf_early, []) \<and>
   handleDDL deps_ok cf_early [] [''a'', ''b''] = (None, cf_early, [], []) \<and>
   ownerRun deps_ok (cf_sync, []) steps_due = (cf_due, []) \<and>
   handleDDL deps_ok cf_due [] [''a'', ''b''] \<noteq> (None, cf_due, [], []) \<and>
   ddlState cf_due = ChangeFeedWaitToExecDDL \<and>
   length (taskStatus cf_due) \<le> length (taskPositions cf_due) \<and>
   CheckpointTs (status cf_due) = FinishedTS (BinlogInfo (hd (ddlJobHistory cf_due)))"
proof -
  have s0: "ddlState cf_sync = ChangeFeedSyncDML"
    by (simp add: cf_sync_def)
  have run1: "ownerRun deps_ok (cf_sync, []) [] = (cf_sync, [])"
    by (simp add: ownerRun_def)
  have g1: "\<not> (ddlState cf_sync = ChangeFeedWaitToExecDDL \<and>
          length (taskStatus cf_sync) \<le> length (taskPositions cf_sync) \<and>
          CheckpointTs (status cf_sync) = FinishedTS (BinlogInfo (hd (ddlJobHistory cf_sync))))"
    by (simp add: cf_sync_def)
  have run2: "ownerRun deps_ok (cf_sync, []) [StepCalcResolvedTs] = (cf_early, [])"
    by (simp add: ownerRun_def ownerStep_def calcResolvedTs_def cf_early_def
          deps_ok_def cf_sync_def minOverPositions_def minOverTaskStatus_def minOverTables_def
          AppliedTs_def emptyStatus_def MaxUint64_def pullAndClamp_def waitForDDL_def
          commitTs_def job_example_def Let_def)
  have g2: "\<not> (ddlState cf_early = ChangeFeedWaitToExecDDL \<and>
          length (taskStatus cf_early) \<le> length (taskPositions cf_early) \<and>
          CheckpointTs (status cf_early) = FinishedTS (BinlogInfo (hd (ddlJobHistory cf_early))))"
    by (simp add: cf_early_def cf_sync_def job_example_def)
  have run3: "ownerRun deps_ok (cf_sync, []) steps_due = (cf_due, [])"
    by (simp add: ownerRun_def ownerStep_def updateProcessorInfos_def calcResolvedTs_def
          steps_due_def cf_due_def
          deps_ok_def cf_sync_def minOverPositions_def minOverTaskStatus_def minOverTables_def
          AppliedTs_def emptyStatus_def MaxUint64_def pullAndClamp_def waitForDDL_def
          commitTs_def job_example_def Let_def)
  have g3: "handleDDL deps_ok cf_due [] [''a'', ''b''] \<noteq> (None, cf_due, [], [])"
    by (simp add: handleDDL_def deps_ok_def cf_due_def cf_sync_def job_example_def Let_def
          applyJob_def applyJobSwitch_def addTable_def execDDL_def balanceOrphanTables_def
          assignOrphans_def writeBalance_def statusUpdate_def
          emptyStatus_def SomeOperationsUnapplied_def applyOperation_def applyTableOps_def
          appendTaskOperations_def appendTaskOperation_def addOp_def AtomicPutTaskStatus_def
          new_TaskStatus_def popJob_def)
  note r1 = handleDDL_only_when_due [OF s0 run1, where captures = "[''a'', ''b'']",
              THEN conjunct1, rule_format, OF g1]
  note r2 = handleDDL_only_when_due [OF s0 run2, where captures = "[''a'', ''b'']",
              THEN conjunct1, rule_format, OF g2]
  note r3 = handleDDL_only_when_due [OF s0 run3, where captures = "[''a'', ''b'']",
              THEN conjunct2, rule_format, OF g3]
  from s0 run1 r1 run2 r2 run3 g3 r3 show ?thesis by blast
qed

text \<open>
  The job is executed although a capture that is alive has reported no position: in
  \<open>cf_zombie\<close>, which the run \<open>steps_zombie\<close> reaches from \<open>cf_sync\<close>, capture
  \<open>b\<close> is alive and has a task status but no position, and \<open>handleDDL\<close> applies the
  job, emits its event to the sink, pops it and goes back to \<open>SyncDML\<close>.
\<close>

theorem handleDDL_unreported_capture:
  "ownerRun deps_ok (cf_sync, []) steps_zombie = (cf_zombie, []) \<and>
   ''b'' \<in> set [''a'', ''b''] \<and>
   map_of (taskStatus cf_zombie) ''b'' = Some emptyStatus \<and>
   map_of (taskPositions cf_zombie) ''b'' = None \<and>
   handleDDL deps_ok cf_zombie [] [''a'', ''b''] =
     (None,
      cf_zombie\<lparr>schemas := [(1, [45])],
                tables := [(45, \<lparr>Schema = ''test'', Table = ''t''\<rparr>)],
                taskStatus := store_done,
                ddlJobHistory := [], ddlExecutedTs := 1200, ddlState := ChangeFeedSyncDML\<rparr>,
      store_done, [EmitDDLEvent job_example])"
proof -
  have run: "ownerRun deps_ok (cf_sync, []) steps_zombie = (cf_zombie, [])"
    by (simp add: ownerRun_def ownerStep_def updateProcessorInfos_def calcResolvedTs_def
          steps_zombie_def cf_zombie_def
          deps_ok_def cf_sync_def minOverPositions_def minOverTaskStatus_def minOverTables_def
          AppliedTs_def emptyStatus_def MaxUint64_def pullAndClamp_def waitForDDL_def
          commitTs_def job_example_def Let_def)
  have st: "map_of (taskStatus cf_zombie) ''b'' = Some emptyStatus"
    by (simp add: cf_zombie_def cf_sync_def)
  have pos: "map_of (taskPositions cf_zombie) ''b'' = None"
    by (simp add: cf_zombie_def cf_sync_def)
  have ex: "handleDDL deps_ok cf_zombie [] [''a'', ''b''] =
     (None,
      cf_zombie\<lparr>schemas := [(1, [45])],
                tables := [(45, \<lparr>Schema = ''test'', Table = ''t''\<rparr>)],
                taskStatus := store_done,
                ddlJobHistory := [], ddlExecutedTs := 1200, ddlState := ChangeFeedSyncDML\<rparr>,
      store_done, [EmitDDLEvent job_example])"
    by (simp add: handleDDL_def deps_ok_def cf_zombie_def store_done_def cf_sync_def
          job_example_def Let_def
          applyJob_def applyJobSwitch_def addTable_def execDDL_def balanceOrphanTables_def
          assignOrphans_def writeBalance_def statusUpdate_def
          emptyStatus_def SomeOperationsUnapplied_def applyOperation_def applyTableOps_def
          appendTaskOperations_def appendTaskOperation_def addOp_def AtomicPutTaskStatus_def
          new_TaskStatus_def popJob_def)
  from run st pos ex show ?thesis
    by simp
qed

section \<open>The outcome of the sink decides what handleDDL does with the job\<close>

text \<open>
  Claim C5. When a call of \<open>handleDDL\<close> emits a DDL event to the sink, the event is
  that of the head job of the history. If the sink accepts it, \<open>handleDDL\<close> returns nil,
  the job is popped, the executed timestamp is the job's finished timestamp and the state
  is \<open>SyncDML\<close>. If the sink fails, \<open>handleDDL\<close> returns \<open>ErrExecDDLFailed\<close>, the state
  is \<open>DDLExecuteFailed\<close>, and the history and the executed timestamp are as before; from
  then on \<open>calcResolvedTs\<close> and \<open>handleDDL\<close> return at once and change nothing, so the
  changefeed no longer advances.
\<close>

theorem handleDDL_sink_outcome:
  assumes "handleDDL deps c store captures = (err, c', store', calls)"
    and "EmitDDLEvent job \<in> set calls"
  shows
    "ddlJobHistory c \<noteq> [] \<and> job = hd (ddlJobHistory c) \<and>
     (sink_EmitDDLEvent deps job = None \<longrightarrow>
        err = None \<and> ddlJobHistory c' = tl (ddlJobHistory c) \<and>
        ddlExecutedTs c' = FinishedTS (BinlogInfo job) \<and> ddlState c' = ChangeFeedSyncDML) \<and>
     (sink_EmitDDLEvent deps job \<noteq> None \<longrightarrow>
        err = Some ErrExecDDLFailed \<and> ddlState c' = ChangeFeedDDLExecuteFailed \<and>
        ddlJobHistory c' = ddlJobHistory c \<and> ddlExecutedTs c' = ddlExecutedTs c \<and>
        calcResolvedTs depsN c' = (None, c', []) \<and>
        handleDDL depsN c' storeN capturesN = (None, c', storeN, []))"
proof -
  from assms(2) have "calls \<noteq> []" by auto
  from handleDDL_reaches_execDDL [OF assms(1) this]
  obtain c3 job' rest where h: "ddlJobHistory c = job' # rest"
    and s3: "ddlState c3 = ChangeFeedExecDDL"
    and f3: "ddlJobHistory c3 = ddlJobHistory c" "ddlExecutedTs c3 = ddlExecutedTs c"
    and e: "execDDL deps c3 store captures job' = (err, c', store', calls)"
    by blast
  note out = execDDL_outcome [OF e s3 assms(2)]
  from out have j: "job = job'" by simp
  have stop: "calcResolvedTs depsN c' = (None, c', []) \<and>
              handleDDL depsN c' storeN capturesN = (None, c', storeN, [])"
    if "ddlState c' = ChangeFeedDDLExecuteFailed"
    using that by (simp add: calcResolvedTs_def handleDDL_def)
  from out j h f3 stop show ?thesis by auto
qed

theorem handleDDL_sink_outcome_witness:
  "handleDDL deps_ok cf_due [] [''a'', ''b''] =
     (None,
      cf_done\<lparr>ddlJobHistory := [], ddlExecutedTs := 1200, ddlState := ChangeFeedSyncDML\<rparr>,
      store_done, [EmitDDLEvent job_example]) \<and>
   handleDDL deps_sink_fails cf_due [] [''a'', ''b''] =
     (Some ErrExecDDLFailed, cf_done\<lparr>ddlState := ChangeFeedDDLExecuteFailed\<rparr>,
      store_done, [EmitDDLEvent job_example]) \<and>
   job_example = hd (ddlJobHistory cf_due) \<and>
   ddlJobHistory (cf_done\<lparr>ddlState := ChangeFeedDDLExecuteFailed\<rparr>) = ddlJobHistory cf_due \<and>
   ddlExecutedTs (cf_done\<lparr>ddlState := ChangeFeedDDLExecuteFailed\<rparr>) = ddlExecutedTs cf_due \<and>
   calcResolvedTs deps_ok (cf_done\<lparr>ddlState := ChangeFeedDDLExecuteFailed\<rparr>) =
     (None, cf_done\<lparr>ddlState := ChangeFeedDDLExecuteFailed\<rparr>, [])"
proof -
  have ok: "handleDDL deps_ok cf_due [] [''a'', ''b''] =
     (None,
      cf_done\<lparr>ddlJobHistory := [], ddlExecutedTs := 1200, ddlState := ChangeFeedSyncDML\<rparr>,
      store_done, [EmitDDLEvent job_example])"
    by (simp add: handleDDL_def deps_ok_def cf_due_def cf_done_def store_done_def cf_sync_def
          job_example_def Let_def
          applyJob_def applyJobSwitch_def addTable_def execDDL_def balanceOrphanTables_def
          assignOrphans_def writeBalance_def statusUpdate_def
          emptyStatus_def SomeOperationsUnapplied_def applyOperation_def applyTableOps_def
          appendTaskOperations_def appendTaskOperation_def addOp_def AtomicPutTaskStatus_def
          new_TaskStatus_def popJob_def)
  have bad: "handleDDL deps_sink_fails cf_due [] [''a'', ''b''] =
     (Some ErrExecDDLFailed, cf_done\<lparr>ddlState := ChangeFeedDDLExecuteFailed\<rparr>,
      store_done, [EmitDDLEvent job_example])"
    by (simp add: handleDDL_def deps_sink_fails_def deps_ok_def cf_due_def cf_done_def
          store_done_def cf_sync_def job_example_def Let_def
          applyJob_def applyJobSwitch_def addTable_def execDDL_def balanceOrphanTables_def
          assignOrphans_def writeBalance_def statusUpdate_def
          emptyStatus_def SomeOperationsUnapplied_def applyOperation_def applyTableOps_def
          appendTaskOperations_def appendTaskOperation_def addOp_def AtomicPutTaskStatus_def
          new_TaskStatus_def popJob_def)
  have mem: "EmitDDLEvent job_example \<in> set [EmitDDLEvent job_example]"
    by simp
  have fails: "sink_EmitDDLEvent deps_sink_fails job_example \<noteq> None"
    by (simp add: deps_sink_fails_def)
  have accepts: "sink_EmitDDLEvent deps_ok job_example = None"
    by (simp add: deps_ok_def)
  note out = handleDDL_sink_outcome [OF bad mem, where depsN = deps_ok and storeN = "[]"
               and capturesN = "[]"]
  note out_ok = handleDDL_sink_outcome [OF ok mem, where depsN = deps_ok and storeN = "[]"
               and capturesN = "[]"]
  from out out_ok fails accepts ok bad show ?thesis by blast
qed

section \<open>Balancing is skipped while an operation is unapplied\<close>

text \<open>
  Claim C8. If the task status of some capture has an operation that is not yet applied,
  \<open>balanceOrphanTables\<close>, \<open>rebanlanceTables\<close> and so \<open>tryBalance\<close> return nil and leave
  the changefeed (its orphan tables, its tables to clean, its scheduler and its planned
  additions among the rest) and the metadata store as they were. With cyclic replication
  enabled \<open>rebanlanceTables\<close> returns nil and changes nothing, whatever else holds.
\<close>

theorem balancing_skipped:
  "((cid, st) \<in> set (taskStatus c) \<and> SomeOperationsUnapplied st \<longrightarrow>
      balanceOrphanTables deps c store captures = (None, c, store) \<and>
      rebanlanceTables deps c store captures rebanlanceNow now = (None, c, store) \<and>
      tryBalance deps c store captures rebanlanceNow now = (None, c, store)) \<and>
   (cyclicEnabled c \<longrightarrow>
      rebanlanceTables deps c store captures rebanlanceNow now = (None, c, store))"
proof (intro conjI impI)
  assume "(cid, st) \<in> set (taskStatus c) \<and> SomeOperationsUnapplied st"
  then have busy: "list_ex (\<lambda>(cid, st). SomeOperationsUnapplied st) (taskStatus c)"
    by (auto simp: list_ex_iff)
  then show b: "balanceOrphanTables deps c store captures = (None, c, store)"
    by (simp add: balanceOrphanTables_def)
  from busy show r: "rebanlanceTables deps c store captures rebanlanceNow now = (None, c, store)"
    by (simp add: rebanlanceTables_def)
  from b r show "tryBalance deps c store captures rebanlanceNow now = (None, c, store)"
    by (simp add: tryBalance_def)
next
  assume "cyclicEnabled c"
  then show "rebanlanceTables deps c store captures rebanlanceNow now = (None, c, store)"
    by (simp add: rebanlanceTables_def)
qed

theorem balancing_skipped_witness:
  "(''a'', \<lparr>Tables = [(7, 900)], Operation = [(7, addOp 900)]\<rparr>) \<in> set (taskStatus cf_busy) \<and>
   SomeOperationsUnapplied \<lparr>Tables = [(7, 900)], Operation = [(7, addOp 900)]\<rparr> \<and>
   balanceOrphanTables deps_ok cf_busy [] [''a'', ''b''] = (None, cf_busy, []) \<and>
   rebanlanceTables deps_ok cf_busy [] [''a'', ''b''] True 0 = (None, cf_busy, []) \<and>
   tryBalance deps_ok cf_busy [] [''a'', ''b''] True 0 = (None, cf_busy, []) \<and>
   cyclicEnabled cf_cyclic \<and>
   rebanlanceTables deps_ok cf_cyclic [] [''a'', ''b''] True 0 = (None, cf_cyclic, [])"
proof -
  have h1: "(''a'', \<lparr>Tables = [(7, 900)], Operation = [(7, addOp 900)]\<rparr>) \<in> set (taskStatus cf_busy) \<and>
            SomeOperationsUnapplied \<lparr>Tables = [(7, 900)], Operation = [(7, addOp 900)]\<rparr>"
    by (simp add: cf_busy_def SomeOperationsUnapplied_def addOp_def)
  have h2: "cyclicEnabled cf_cyclic"
    by (simp add: cf_cyclic_def)
  note r1 = balancing_skipped [where c = cf_busy and deps = deps_ok and store = "[]"
               and captures = "[''a'', ''b'']" and rebanlanceNow = True and now = 0,
             THEN conjunct1, rule_format, OF h1]
  note r2 = balancing_skipped [where c = cf_cyclic and deps = deps_ok and store = "[]"
               and captures = "[''a'', ''b'']" and rebanlanceNow = True and now = 0,
             THEN conjunct2, rule_format, OF h2]
  from h1 h2 r1 r2 show ?thesis by blast
qed

section \<open>An error in a tick does not undo the writes already made\<close>

text \<open>
  Claim C7, as amended. When \<open>updateTaskStatus\<close> returns an error, the new statuses
  split into those written before the failing capture, the failing capture and the rest:
  the store holds exactly the writes made before the failing one (they are not rolled
  back), the failing write stores nothing, and the writes after it are not attempted.
  When \<open>balanceOrphanTables\<close> returns an error, the error comes from such a call of
  \<open>updateTaskStatus\<close> on the store it was given, and the orphan tables are left to be
  balanced again.
\<close>

theorem tick_error_keeps_earlier_writes:
  "(updateTaskStatus deps c store news = (Some err, c', store') \<longrightarrow>
      (\<exists>written cap st rest.
          news = written @ (cap, st) # rest \<and>
          store' = storeAfter written store \<and>
          AtomicPutTaskStatus deps store' cap (statusUpdate st) = (Inl err, store'))) \<and>
   (balanceOrphanTables deps c store captures = (Some err, c', store') \<longrightarrow>
      orphanTables c' = orphanTables c \<and>
      (\<exists>c3 news written cap st rest.
          updateTaskStatus deps c3 store news = (Some err, c', store') \<and>
          news = written @ (cap, st) # rest \<and>
          store' = storeAfter written store \<and>
          AtomicPutTaskStatus deps store' cap (statusUpdate st) = (Inl err, store')))"
proof (intro conjI impI)
  assume "updateTaskStatus deps c store news = (Some err, c', store')"
  then show "\<exists>written cap st rest.
          news = written @ (cap, st) # rest \<and>
          store' = storeAfter written store \<and>
          AtomicPutTaskStatus deps store' cap (statusUpdate st) = (Inl err, store')"
    by (rule updateTaskStatus_error)
next
  assume b: "balanceOrphanTables deps c store captures = (Some err, c', store')"
  from balanceOrphanTables_error [OF b]
  show "orphanTables c' = orphanTables c" by simp
  from balanceOrphanTables_error [OF b] obtain c3 news where
    u: "updateTaskStatus deps c3 store news = (Some err, c', store')"
    by blast
  from updateTaskStatus_error [OF u] u
  show "\<exists>c3 news written cap st rest.
          updateTaskStatus deps c3 store news = (Some err, c', store') \<and>
          news = written @ (cap, st) # rest \<and>
          store' = storeAfter written store \<and>
          AtomicPutTaskStatus deps store' cap (statusUpdate st) = (Inl err, store')"
    by blast
qed

theorem tick_error_keeps_earlier_writes_witness:
  "updateTaskStatus deps_put_fails cf_orphans [] [(''a'', status_a), (''b'', status_b)] =
     (Some (ErrExternal 2),
      cf_orphans\<lparr>taskStatus := [(''a'', status_a), (''b'', emptyStatus)]\<rparr>,
      [(''a'', status_a)]) \<and>
   (\<exists>written cap st rest.
       [(''a'', status_a), (''b'', status_b)] = written @ (cap, st) # rest \<and>
       [(''a'', status_a)] = storeAfter written [] \<and>
       AtomicPutTaskStatus deps_put_fails [(''a'', status_a)] cap (statusUpdate st)
         = (Inl (ErrExternal 2), [(''a'', status_a)])) \<and>
   balanceOrphanTables deps_put_fails cf_orphans [] [''a'', ''b''] =
     (Some (ErrExternal 2),
      cf_orphans\<lparr>taskStatus := [(''a'', status_a), (''b'', emptyStatus)]\<rparr>,
      [(''a'', status_a)]) \<and>
   orphanTables (cf_orphans\<lparr>taskStatus := [(''a'', status_a), (''b'', emptyStatus)]\<rparr>)
     = orphanTables cf_orphans"
proof -
  have u: "updateTaskStatus deps_put_fails cf_orphans [] [(''a'', status_a), (''b'', status_b)] =
     (Some (ErrExternal 2),
      cf_orphans\<lparr>taskStatus := [(''a'', status_a), (''b'', emptyStatus)]\<rparr>,
      [(''a'', status_a)])"
    by (simp add: deps_put_fails_def deps_ok_def cf_orphans_def cf_sync_def status_a_def
          status_b_def emptyStatus_def addOp_def AtomicPutTaskStatus_def statusUpdate_def
          SomeOperationsUnapplied_def new_TaskStatus_def)
  have b: "balanceOrphanTables deps_put_fails cf_orphans [] [''a'', ''b''] =
     (Some (ErrExternal 2),
      cf_orphans\<lparr>taskStatus := [(''a'', status_a), (''b'', emptyStatus)]\<rparr>,
      [(''a'', status_a)])"
    by (simp add: balanceOrphanTables_def assignOrphans_def writeBalance_def
          deps_put_fails_def deps_ok_def cf_orphans_def cf_sync_def status_a_def
          emptyStatus_def addOp_def AtomicPutTaskStatus_def statusUpdate_def
          SomeOperationsUnapplied_def new_TaskStatus_def applyOperation_def applyTableOps_def
          appendTaskOperations_def appendTaskOperation_def Let_def)
  note w1 = tick_error_keeps_earlier_writes [THEN conjunct1, rule_format, OF u]
  note w2 = tick_error_keeps_earlier_writes [THEN conjunct2, rule_format, OF b, THEN conjunct1]
  from u w1 b w2 show ?thesis by (intro conjI)
qed

text \<open>
  The claim as stated fails: the write for capture \<open>b\<close> is refused, \<open>balanceOrphanTables\<close>
  and \<open>tryBalance\<close> return the error, and the metadata store, empty before the call, holds
  the status written for capture \<open>a\<close>.
\<close>

theorem tick_error_counterexample:
  "balanceOrphanTables deps_put_fails cf_orphans [] [''a'', ''b''] =
     (Some (ErrExternal 2),
      cf_orphans\<lparr>taskStatus := [(''a'', status_a), (''b'', emptyStatus)]\<rparr>,
      [(''a'', status_a)]) \<and>
   tryBalance deps_put_fails cf_orphans [] [''a'', ''b''] False 0 =
     (Some (ErrExternal 2),
      cf_orphans\<lparr>taskStatus := [(''a'', status_a), (''b'', emptyStatus)]\<rparr>,
      [(''a'', status_a)]) \<and>
   [(''a'', status_a)] \<noteq> ([] :: etcd_store)"
  by (simp add: tryBalance_def balanceOrphanTables_def assignOrphans_def writeBalance_def
        deps_put_fails_def deps_ok_def cf_orphans_def cf_sync_def status_a_def
        emptyStatus_def addOp_def AtomicPutTaskStatus_def statusUpdate_def
        SomeOperationsUnapplied_def new_TaskStatus_def applyOperation_def applyTableOps_def
        appendTaskOperations_def appendTaskOperation_def Let_def)

section \<open>A round of the global-resolved worker\<close>

text \<open>
  Claim C3. \<open>Forward\<close> on a table channel sends, in order, one entry for each of the
  transactions at the head of the channel whose commit timestamp is at most the global
  resolved timestamp: a DML entry that carries the rows of the transaction and its commit
  timestamp. It keeps the other transactions and puts back the first of them; it returns
  exactly when the channel delivers a transaction above that timestamp or is closed. On a
  channel in commit order what it sends are the entries of exactly the transactions with
  commit timestamp at most the global resolved timestamp, and what it keeps exactly those
  above it. A round of the worker that reads a global resolved timestamp different from
  the last one, with every table channel delivering, goes on to the next round having sent
  an interleaving of what the channels forward, followed by the one resolved entry, which
  has no rows and the global resolved timestamp; every entry sent before the resolved
  entry is the DML entry of a transaction of some table channel, with the rows and the
  commit timestamp of that transaction, and the commit timestamp is at most the global
  resolved timestamp. When some channel does not deliver, the round never ends and sends
  no resolved entry; when the timestamp is the last one handled, the round sends nothing.
\<close>

theorem global_resolved_round:
  "(sent (Forward input g)
      = map (\<lambda>t. \<lparr>pe_Entries = Entries t, pe_TS = TS t, Typ = ProcessorEntryDMLS\<rparr>)
          (takeWhile (\<lambda>t. TS t \<le> g) (pending input)) \<and>
    pending (channelAfter (Forward input g)) = dropWhile (\<lambda>t. TS t \<le> g) (pending input) \<and>
    putBackTxn (channelAfter (Forward input g)) =
      (case dropWhile (\<lambda>t. TS t \<le> g) (pending input) of [] \<Rightarrow> None | t # rest \<Rightarrow> Some t) \<and>
    returned (Forward input g) = delivers input g) \<and>
   (sorted (map TS (pending input)) \<longrightarrow>
      sent (Forward input g)
        = map (\<lambda>t. \<lparr>pe_Entries = Entries t, pe_TS = TS t, Typ = ProcessorEntryDMLS\<rparr>)
            (filter (\<lambda>t. TS t \<le> g) (pending input)) \<and>
      pending (channelAfter (Forward input g)) = filter (\<lambda>t. TS t > g) (pending input)) \<and>
   (lastGlobalResolvedTS s \<noteq> g \<and>
    list_all (\<lambda>(table, input). delivers input g) (tableInputChans s) \<longrightarrow>
      globalResolvedWorker_round sched False (Inr g) s =
        (Continue,
         s\<lparr>lastGlobalResolvedTS := g,
           tableInputChans :=
             map (\<lambda>(table, input). (table, channelAfter (Forward input g))) (tableInputChans s),
           resolvedEntries :=
             resolvedEntries s @
             mergeBy sched
               (map (\<lambda>(table, input).
                     map (\<lambda>t. \<lparr>pe_Entries = Entries t, pe_TS = TS t, Typ = ProcessorEntryDMLS\<rparr>)
                       (takeWhile (\<lambda>t. TS t \<le> g) (pending input)))
                (tableInputChans s)) @
             [\<lparr>pe_Entries = [], pe_TS = g, Typ = ProcessorEntryResolved\<rparr>]\<rparr>) \<and>
      mset (mergeBy sched
               (map (\<lambda>(table, input).
                     map (\<lambda>t. \<lparr>pe_Entries = Entries t, pe_TS = TS t, Typ = ProcessorEntryDMLS\<rparr>)
                       (takeWhile (\<lambda>t. TS t \<le> g) (pending input)))
                (tableInputChans s)))
        = mset (concat
               (map (\<lambda>(table, input).
                     map (\<lambda>t. \<lparr>pe_Entries = Entries t, pe_TS = TS t, Typ = ProcessorEntryDMLS\<rparr>)
                       (takeWhile (\<lambda>t. TS t \<le> g) (pending input)))
                (tableInputChans s))) \<and>
      (\<forall>e \<in> set (mergeBy sched
               (map (\<lambda>(table, input).
                     map (\<lambda>t. \<lparr>pe_Entries = Entries t, pe_TS = TS t, Typ = ProcessorEntryDMLS\<rparr>)
                       (takeWhile (\<lambda>t. TS t \<le> g) (pending input)))
                (tableInputChans s))).
          Typ e = ProcessorEntryDMLS \<and> pe_TS e \<le> g \<and>
          (\<exists>(table, input) \<in> set (tableInputChans s). \<exists>t \<in> set (pending input).
              TS t \<le> g \<and>
              e = \<lparr>pe_Entries = Entries t, pe_TS = TS t, Typ = ProcessorEntryDMLS\<rparr>))) \<and>
   (lastGlobalResolvedTS s \<noteq> g \<and>
    \<not> list_all (\<lambda>(table, input). delivers input g) (tableInputChans s) \<longrightarrow>
      globalResolvedWorker_round sched False (Inr g) s =
        (WaitForever,
         s\<lparr>lastGlobalResolvedTS := g,
           tableInputChans :=
             map (\<lambda>(table, input). (table, channelAfter (Forward input g))) (tableInputChans s),
           resolvedEntries :=
             resolvedEntries s @
             mergeBy sched
               (map (\<lambda>(table, input).
                     map (\<lambda>t. \<lparr>pe_Entries = Entries t, pe_TS = TS t, Typ = ProcessorEntryDMLS\<rparr>)
                       (takeWhile (\<lambda>t. TS t \<le> g) (pending input)))
                (tableInputChans s))\<rparr>)) \<and>
   (lastGlobalResolvedTS s = g \<longrightarrow>
      globalResolvedWorker_round sched False (Inr g) s = (Continue, s))"
proof -
  have E: "dmlEntry = (\<lambda>t. \<lparr>pe_Entries = Entries t, pe_TS = TS t, Typ = ProcessorEntryDMLS\<rparr>)"
    by (simp add: fun_eq_iff dmlEntry_def)
  have S: "(\<lambda>(table, input). sent (Forward input g))
             = (\<lambda>(table, input). map dmlEntry (takeWhile (\<lambda>t. TS t \<le> g) (pending input)))"
    by (simp add: fun_eq_iff sent_Forward)
  have R: "NewProcessorResolvedEntry g = \<lparr>pe_Entries = [], pe_TS = g, Typ = ProcessorEntryResolved\<rparr>"
    by (simp add: NewProcessorResolvedEntry_def)
  note sf = sent_Forward [of input g, unfolded E]
  note re = round_eq [of s g sched, unfolded S E R]
  note ms = mset_mergeBy [of sched "map (\<lambda>(table, input). sent (Forward input g)) (tableInputChans s)",
              unfolded S E]
  note be = body_entries [of _ sched g "tableInputChans s", unfolded S E]
  show ?thesis
  proof (intro conjI impI ballI)
    show "sent (Forward input g)
      = map (\<lambda>t. \<lparr>pe_Entries = Entries t, pe_TS = TS t, Typ = ProcessorEntryDMLS\<rparr>)
          (takeWhile (\<lambda>t. TS t \<le> g) (pending input))"
      by (rule sf)
    show "pending (channelAfter (Forward input g)) = dropWhile (\<lambda>t. TS t \<le> g) (pending input)"
      by (rule pending_Forward)
    show "putBackTxn (channelAfter (Forward input g)) =
      (case dropWhile (\<lambda>t. TS t \<le> g) (pending input) of [] \<Rightarrow> None | t # rest \<Rightarrow> Some t)"
      by (rule putBack_Forward)
    show "returned (Forward input g) = delivers input g"
      by (rule returned_Forward)
  next
    assume "sorted (map TS (pending input))"
    from sorted_takeWhile_filter [OF this, of g]
    show "sent (Forward input g)
        = map (\<lambda>t. \<lparr>pe_Entries = Entries t, pe_TS = TS t, Typ = ProcessorEntryDMLS\<rparr>)
            (filter (\<lambda>t. TS t \<le> g) (pending input))"
      and "pending (channelAfter (Forward input g)) = filter (\<lambda>t. TS t > g) (pending input)"
      by (simp_all add: sf pending_Forward)
  next
    assume a: "lastGlobalResolvedTS s \<noteq> g \<and>
    list_all (\<lambda>(table, input). delivers input g) (tableInputChans s)"
    then have "lastGlobalResolvedTS s \<noteq> g" by simp
    from re [OF this] a
    show "globalResolvedWorker_round sched False (Inr g) s =
        (Continue,
         s\<lparr>lastGlobalResolvedTS := g,
           tableInputChans :=
             map (\<lambda>(table, input). (table, channelAfter (Forward input g))) (tableInputChans s),
           resolvedEntries :=
             resolvedEntries s @
             mergeBy sched
               (map (\<lambda>(table, input).
                     map (\<lambda>t. \<lparr>pe_Entries = Entries t, pe_TS = TS t, Typ = ProcessorEntryDMLS\<rparr>)
                       (takeWhile (\<lambda>t. TS t \<le> g) (pending input)))
                (tableInputChans s)) @
             [\<lparr>pe_Entries = [], pe_TS = g, Typ = ProcessorEntryResolved\<rparr>]\<rparr>)"
      by simp
    show "mset (mergeBy sched
               (map (\<lambda>(table, input).
                     map (\<lambda>t. \<lparr>pe_Entries = Entries t, pe_TS = TS t, Typ = ProcessorEntryDMLS\<rparr>)
                       (takeWhile (\<lambda>t. TS t \<le> g) (pending input)))
                (tableInputChans s)))
        = mset (concat
               (map (\<lambda>(table, input).
                     map (\<lambda>t. \<lparr>pe_Entries = Entries t, pe_TS = TS t, Typ = ProcessorEntryDMLS\<rparr>)
                       (takeWhile (\<lambda>t. TS t \<le> g) (pending input)))
                (tableInputChans s)))"
      by (rule ms)
    fix e
    assume "e \<in> set (mergeBy sched
               (map (\<lambda>(table, input).
                     map (\<lambda>t. \<lparr>pe_Entries = Entries t, pe_TS = TS t, Typ = ProcessorEntryDMLS\<rparr>)
                       (takeWhile (\<lambda>t. TS t \<le> g) (pending input)))
                (tableInputChans s)))"
    from be [OF this]
    obtain table input' t where c: "(table, input') \<in> set (tableInputChans s)"
      and t: "t \<in> set (pending input')" "TS t \<le> g"
      and e: "e = \<lparr>pe_Entries = Entries t, pe_TS = TS t, Typ = ProcessorEntryDMLS\<rparr>"
      by blast
    from e t show "Typ e = ProcessorEntryDMLS" and "pe_TS e \<le> g"
      by simp_all
    from c t e
    show "\<exists>(table, input) \<in> set (tableInputChans s). \<exists>t \<in> set (pending input).
              TS t \<le> g \<and>
              e = \<lparr>pe_Entries = Entries t, pe_TS = TS t, Typ = ProcessorEntryDMLS\<rparr>"
      by blast
  next
    assume a: "lastGlobalResolvedTS s \<noteq> g \<and>
    \<not> list_all (\<lambda>(table, input). delivers input g) (tableInputChans s)"
    then have "lastGlobalResolvedTS s \<noteq> g" by simp
    from re [OF this] a
    show "globalResolvedWorker_round sched False (Inr g) s =
        (WaitForever,
         s\<lparr>lastGlobalResolvedTS := g,
           tableInputChans :=
             map (\<lambda>(table, input). (table, channelAfter (Forward input g))) (tableInputChans s),
           resolvedEntries :=
             resolvedEntries s @
             mergeBy sched
               (map (\<lambda>(table, input).
                     map (\<lambda>t. \<lparr>pe_Entries = Entries t, pe_TS = TS t, Typ = ProcessorEntryDMLS\<rparr>)
                       (takeWhile (\<lambda>t. TS t \<le> g) (pending input)))
                (tableInputChans s))\<rparr>)"
      by simp
  next
    assume "lastGlobalResolvedTS s = g"
    then show "globalResolvedWorker_round sched False (Inr g) s = (Continue, s)"
      by (simp add: globalResolvedWorker_round_def)
  qed
qed

theorem global_resolved_round_witness:
  "sorted (map TS (pending chan_b)) \<and>
   sent (Forward chan_b 10)
     = [\<lparr>pe_Entries = [\<lparr>OpType = OpTypePut, Key = [1], Value = [2], RawKVEntry_Ts = 9\<rparr>],
           pe_TS = 9, Typ = ProcessorEntryDMLS\<rparr>,
        \<lparr>pe_Entries = [\<lparr>OpType = OpTypePut, Key = [1], Value = [2], RawKVEntry_Ts = 10\<rparr>],
           pe_TS = 10, Typ = ProcessorEntryDMLS\<rparr>] \<and>
   pending (channelAfter (Forward chan_b 10)) = [rawTxn 11] \<and>
   lastGlobalResolvedTS worker0 \<noteq> 10 \<and>
   list_all (\<lambda>(table, input). delivers input 10) (tableInputChans worker0) \<and>
   globalResolvedWorker_round [1, 0, 1, 0] False (Inr 10) worker0 =
     (Continue,
      \<lparr>lastGlobalResolvedTS = 10,
       tableInputChans =
         [(1, \<lparr>outputTxn = [], outputClosed = False, putBackTxn = Some (rawTxn 12)\<rparr>),
          (2, \<lparr>outputTxn = [], outputClosed = False, putBackTxn = Some (rawTxn 11)\<rparr>)],
       resolvedEntries =
         [\<lparr>pe_Entries = [\<lparr>OpType = OpTypePut, Key = [1], Value = [2], RawKVEntry_Ts = 9\<rparr>],
           pe_TS = 9, Typ = ProcessorEntryDMLS\<rparr>,
          \<lparr>pe_Entries = [\<lparr>OpType = OpTypePut, Key = [1], Value = [2], RawKVEntry_Ts = 5\<rparr>],
           pe_TS = 5, Typ = ProcessorEntryDMLS\<rparr>,
          \<lparr>pe_Entries = [\<lparr>OpType = OpTypePut, Key = [1], Value = [2], RawKVEntry_Ts = 10\<rparr>],
           pe_TS = 10, Typ = ProcessorEntryDMLS\<rparr>,
          \<lparr>pe_Entries = [\<lparr>OpType = OpTypePut, Key = [1], Value = [2], RawKVEntry_Ts = 8\<rparr>],
           pe_TS = 8, Typ = ProcessorEntryDMLS\<rparr>,
          \<lparr>pe_Entries = [], pe_TS = 10, Typ = ProcessorEntryResolved\<rparr>]\<rparr>) \<and>
   \<not> list_all (\<lambda>(table, input). delivers input 12) (tableInputChans worker0) \<and>
   fst (globalResolvedWorker_round [] False (Inr 12) worker0) = WaitForever \<and>
   globalResolvedWorker_round [] False (Inr 0) worker0 = (Continue, worker0)"
proof -
  have srt: "sorted (map TS (pending chan_b))"
    by (simp add: pending_def chan_b_def rawTxn_def)
  have h: "lastGlobalResolvedTS worker0 \<noteq> 10 \<and>
           list_all (\<lambda>(table, input). delivers input 10) (tableInputChans worker0)"
    by (simp add: worker0_def delivers_def pending_def chan_a_def chan_b_def rawTxn_def)
  have h2: "lastGlobalResolvedTS worker0 \<noteq> 12 \<and>
            \<not> list_all (\<lambda>(table, input). delivers input 12) (tableInputChans worker0)"
    by (simp add: worker0_def delivers_def pending_def chan_a_def chan_b_def rawTxn_def)
  have h3: "lastGlobalResolvedTS worker0 = 0"
    by (simp add: worker0_def)
  note inst = global_resolved_round [where s = worker0 and input = chan_b]
  note w1 = inst [where g = 10, THEN conjunct2, THEN conjunct1, rule_format, OF srt]
  note w2 = inst [where g = 10 and sched = "[1, 0, 1, 0]", THEN conjunct2, THEN conjunct2,
                  THEN conjunct1, rule_format, OF h, THEN conjunct1]
  note w3 = inst [where g = 12 and sched = "[]", THEN conjunct2, THEN conjunct2, THEN conjunct2,
                  THEN conjunct1, rule_format, OF h2]
  note w4 = inst [where g = 0 and sched = "[]", THEN conjunct2, THEN conjunct2, THEN conjunct2,
                  THEN conjunct2, rule_format, OF h3]
  from w1 have s1: "sent (Forward chan_b 10)
     = [\<lparr>pe_Entries = [\<lparr>OpType = OpTypePut, Key = [1], Value = [2], RawKVEntry_Ts = 9\<rparr>],
           pe_TS = 9, Typ = ProcessorEntryDMLS\<rparr>,
        \<lparr>pe_Entries = [\<lparr>OpType = OpTypePut, Key = [1], Value = [2], RawKVEntry_Ts = 10\<rparr>],
           pe_TS = 10, Typ = ProcessorEntryDMLS\<rparr>]"
    and p1: "pending (channelAfter (Forward chan_b 10)) = [rawTxn 11]"
    by (simp_all add: pending_def chan_b_def rawTxn_def)
  have v: "worker0\<lparr>lastGlobalResolvedTS := 10,
           tableInputChans :=
             map (\<lambda>(table, input). (table, channelAfter (Forward input 10)))
               (tableInputChans worker0),
           resolvedEntries :=
             resolvedEntries worker0 @
             mergeBy [1, 0, 1, 0]
               (map (\<lambda>(table, input).
                     map (\<lambda>t. \<lparr>pe_Entries = Entries t, pe_TS = TS t, Typ = ProcessorEntryDMLS\<rparr>)
                       (takeWhile (\<lambda>t. TS t \<le> 10) (pending input)))
                (tableInputChans worker0)) @
             [\<lparr>pe_Entries = [], pe_TS = 10, Typ = ProcessorEntryResolved\<rparr>]\<rparr>
     = \<lparr>lastGlobalResolvedTS = 10,
       tableInputChans =
         [(1, \<lparr>outputTxn = [], outputClosed = False, putBackTxn = Some (rawTxn 12)\<rparr>),
          (2, \<lparr>outputTxn = [], outputClosed = False, putBackTxn = Some (rawTxn 11)\<rparr>)],
       resolvedEntries =
         [\<lparr>pe_Entries = [\<lparr>OpType = OpTypePut, Key = [1], Value = [2], RawKVEntry_Ts = 9\<rparr>],
           pe_TS = 9, Typ = ProcessorEntryDMLS\<rparr>,
          \<lparr>pe_Entries = [\<lparr>OpType = OpTypePut, Key = [1], Value = [2], RawKVEntry_Ts = 5\<rparr>],
           pe_TS = 5, Typ = ProcessorEntryDMLS\<rparr>,
          \<lparr>pe_Entries = [\<lparr>OpType = OpTypePut, Key = [1], Value = [2], RawKVEntry_Ts = 10\<rparr>],
           pe_TS = 10, Typ = ProcessorEntryDMLS\<rparr>,
          \<lparr>pe_Entries = [\<lparr>OpType = OpTypePut, Key = [1], Value = [2], RawKVEntry_Ts = 8\<rparr>],
           pe_TS = 8, Typ = ProcessorEntryDMLS\<rparr>,
          \<lparr>pe_Entries = [], pe_TS = 10, Typ = ProcessorEntryResolved\<rparr>]\<rparr>"
    by (simp add: worker0_def chan_a_def chan_b_def rawTxn_def Forward_def PutBack_def
          NewProcessorDMLsEntry_def pending_def)
  from w3 have w3': "fst (globalResolvedWorker_round [] False (Inr 12) worker0) = WaitForever"
    by simp
  from h have ha: "lastGlobalResolvedTS worker0 \<noteq> 10"
    and hb: "list_all (\<lambda>(table, input). delivers input 10) (tableInputChans worker0)"
    by simp_all
  from h2 have hc: "\<not> list_all (\<lambda>(table, input). delivers input 12) (tableInputChans worker0)"
    by simp
  from srt s1 p1 ha hb w2 [unfolded v] hc w3' w4 show ?thesis
    by (intro conjI)
qed

section \<open>Messages of the writer read back by the reader\<close>

text \<open>
  The round trip, for every JSON codec. The bytes written for a resolved timestamp decode
  to the resolved message with the same changefeed id and timestamp. For a transaction
  that the writer can encode (the counts and the row type fit 32 bits, the value names of
  a row are distinct, the tables are known, a DDL transaction carries no row changes, and
  the JSON text of every job, value and column is read back as it was) the writer gives
  bytes, and they decode to the message with the same changefeed id and transaction, and
  with the writable columns of every table of the transaction. The result does not depend
  on the four bytes of the checksum: the same bytes with anything in their place decode to
  the same message.
\<close>

lemma message_round_trip:
  "(gostr cdc \<longrightarrow>
      (\<exists>data. resolveTsWriter_Write (NewResloveTsWriter cdc t) = Inr data \<and>
              Decode js data = Inr \<lparr>MsgType = ResolveTsType, CdcID = cdc, ResloveTs = t,
                                    Message_Txn = None, Columns = []\<rparr>)) \<and>
   (encodable js getter cdc txn \<longrightarrow>
      (\<exists>data. txnWriter_Write js (NewTxnWriter cdc txn getter) = Inr data \<and>
              Decode js data = Inr (messageOf getter cdc txn) \<and>
              (\<forall>tail. Decode js (withoutChecksum data @ tail)
                        = Inr (messageOf getter cdc txn))))"
proof (intro conjI impI)
  assume "gostr cdc"
  then show "\<exists>data. resolveTsWriter_Write (NewResloveTsWriter cdc t) = Inr data \<and>
              Decode js data = Inr \<lparr>MsgType = ResolveTsType, CdcID = cdc, ResloveTs = t,
                                    Message_Txn = None, Columns = []\<rparr>"
    by (rule resolveTs_decodes)
next
  assume "encodable js getter cdc txn"
  then show "\<exists>data. txnWriter_Write js (NewTxnWriter cdc txn getter) = Inr data \<and>
              Decode js data = Inr (messageOf getter cdc txn) \<and>
              (\<forall>tail. Decode js (withoutChecksum data @ tail)
                        = Inr (messageOf getter cdc txn))"
    by (rule txn_decodes)
qed

text \<open>
  Claim C6. The bytes that the writer gives for a message decode to the message, and the
  reader is to reject a message whose checksum does not fit its body. The reader does not
  reject it: \<open>decodeDDL\<close> and \<open>decodeDML\<close> skip the length of the body under
  the comment \<open>TOOD check checksum\<close> (lines 1067 and 1092) and nothing reads the
  checksum. For every JSON codec: the writer gives, for the row change of the example,
  the envelope, the 19 bytes of the body and the checksum of the body; the same bytes with
  the checksum plus one in place of the checksum are a different message, and the reader
  decodes them to the message of the row change. For the transaction with no row change
  the body is empty and its checksum is 0; the reader decodes the message with the
  checksum 1 in its place.
\<close>

theorem wrong_checksum_accepted:
  "txnWriter_Write js (NewTxnWriter ''cdc'' txn_ex getter_ex)
     = Inr (front_ex @ body_ex @ PutUint32 (castagnoliTable body_ex)) \<and>
   PutUint32 (castagnoliTable body_ex + 1) \<noteq> PutUint32 (castagnoliTable body_ex) \<and>
   Decode js (front_ex @ body_ex @ PutUint32 (castagnoliTable body_ex + 1)) = Inr msg_ex \<and>
   txnWriter_Write js (NewTxnWriter ''cdc'' txn_empty getter_ex)
     = Inr (front_empty @ [0, 0, 0, 0]) \<and>
   Decode js (front_empty @ [0, 0, 0, 1]) = Inr msg_empty"
proof -
  have w: "txnWriter_Write js (NewTxnWriter ''cdc'' txn_ex getter_ex)
              = Inr (front_ex @ body_ex @ PutUint32 (castagnoliTable body_ex))"
    by (simp add: txnWriter_Write_def NewTxnWriter_def writeDML_def writeMeta_def
          writer_write_def flush_def PutBE32_def MagicIndex_def PutByte_def
          Version_def TxnType_def DmlOp_def PutUvarintStr_def PutUvarint.simps bytesOf_def
          PutBE64_def PutUint64_def PutBE32int_def PutHash_def drop_bit_eq_div
          txn_ex_def getter_ex_def writableColumns_def
          front_ex_def body_ex_def PutUint32_def)
  have n: "PutUint32 (castagnoliTable body_ex + 1) \<noteq> PutUint32 (castagnoliTable body_ex)"
  proof
    assume "PutUint32 (castagnoliTable body_ex + 1) = PutUint32 (castagnoliTable body_ex)"
    then have "BigEndian_Uint32 (PutUint32 (castagnoliTable body_ex + 1) @ [])
                 = BigEndian_Uint32 (PutUint32 (castagnoliTable body_ex) @ [])"
      by (simp only:)
    then show False
      by (simp only: BigEndian_Uint32_Put) simp
  qed
  have d: "Decode js (front_ex @ body_ex @ tail) = Inr msg_ex" for tail
    by (simp add: Decode_def decodeTxnMsg_def decodeDML_def decodeDMLValues_def
          Be32_def Be64_def Be32int_def Byte_def UvarintStr_def Uvarint64_def Uvarint_def
          front_ex_def body_ex_def msg_ex_def txn_ex_def MagicIndex_def TxnType_def
          ResolveTsType_def DmlOp_def DdlOp_def names_ex FormColumnKey_def)
  have w0: "txnWriter_Write js (NewTxnWriter ''cdc'' txn_empty getter_ex)
              = Inr (front_empty @ [0, 0, 0, 0])"
    by (simp add: txnWriter_Write_def NewTxnWriter_def writeDML_def writeMeta_def
          writer_write_def flush_def PutBE32_def MagicIndex_def PutByte_def
          Version_def TxnType_def DmlOp_def PutUvarintStr_def PutUvarint.simps bytesOf_def
          PutBE64_def PutUint64_def PutBE32int_def PutHash_def drop_bit_eq_div
          txn_empty_def castagnoliTable_def crc32_update_def
          front_empty_def PutUint32_def)
  have d0: "Decode js (front_empty @ [0, 0, 0, 1]) = Inr msg_empty"
    by (simp add: Decode_def decodeTxnMsg_def decodeDML_def decodeDMLValues_def
          Be32_def Be64_def Be32int_def Byte_def UvarintStr_def Uvarint64_def Uvarint_def
          front_empty_def msg_empty_def txn_empty_def MagicIndex_def TxnType_def
          ResolveTsType_def DmlOp_def DdlOp_def names_ex FormColumnKey_def)
  from w n d [of "PutUint32 (castagnoliTable body_ex + 1)"] w0 d0 show ?thesis
    by (intro conjI)
qed

end
